theory Spec2Isabelle
  imports Main "HOL-Library.AList"
begin

section \<open>Symbols, scoped symbol tables and the semantic analyzer of sts.py\<close>

text \<open>
  Python objects are mutable and shared by reference, so the embedding keeps two stores:
  a store of \<open>Symbol\<close> objects and a store of \<open>ScopedSymbolTable\<close> objects. Both are lists,
  the address of an object is its index, and creating an object appends it. A reference is
  a \<open>nat\<close>, a reference that may be \<open>None\<close> is a \<open>nat option\<close>.
\<close>

subsection \<open>Collaborators that sts.py imports\<close>

text \<open>Modelled from the spec: the members of \<open>lex.TokenType\<close> that sts.py names
  (the scope kinds PROGRAM, PROCEDURE and FUNCTION).\<close>

datatype TokenType = PROGRAM | PROCEDURE | FUNCTION

text \<open>A Python value that is either the enumeration class \<open>TokenType\<close> itself or one of
  its members. \<open>==\<close> between the class and a member is identity, hence false.\<close>

datatype TokenType_value = TokenType_class | TokenType_member TokenType

text \<open>Modelled from the spec: the error codes of \<open>base.ErrorCode\<close> that sts.py raises, and
  a token that carries the lexeme an error is attributed to.\<close>

datatype ErrorCode = DUPLICATE_ID | ID_NOT_FOUND | MISSING_RETURN

datatype Token = Token string

text \<open>What a visit can raise: the analyzer's own \<open>SemanticError\<close>, Python's
  \<open>AttributeError\<close> (with the attribute that is missing) and \<open>RecursionError\<close> for a
  recursion that does not come back.\<close>

datatype error = SemanticError ErrorCode Token | AttributeError string | RecursionError

subsection \<open>Symbol, VarSymbol, BuiltinTypeSymbol, ProcedureSymbol\<close>

datatype Symbol =
    VarSymbol (name: string) (type: "nat option")
  | BuiltinTypeSymbol (name: string)
  | ProcedureSymbol (name: string) (params: "nat list")

subsection \<open>ScopedSymbolTable\<close>

record ScopedSymbolTable =
  symbols :: "(string \<times> nat) list"
  scope_name :: string
  scopeType :: TokenType_value
  scope_level :: int
  enclosing_scope :: "nat option"
  hasReturnStatement :: bool

text \<open>\<open>insert\<close>: \<open>self._symbols[symbol.name] = symbol\<close>. A Python dict keeps the position
  of a key that is overwritten and appends a new key, as \<open>AList.update\<close> does.\<close>

definition insert_symbol :: "Symbol list \<Rightarrow> nat \<Rightarrow> ScopedSymbolTable \<Rightarrow> ScopedSymbolTable" where
  "insert_symbol sh symbol self =
     self\<lparr>symbols := AList.update (name (sh ! symbol)) symbol (symbols self)\<rparr>"

text \<open>\<open>_init_builtins\<close>: two new \<open>BuiltinTypeSymbol\<close> objects are created and inserted.\<close>

definition init_builtins :: "Symbol list \<Rightarrow> ScopedSymbolTable \<Rightarrow> ScopedSymbolTable \<times> Symbol list" where
  "init_builtins sh self =
     (let sh1 = sh @ [BuiltinTypeSymbol ''INTEGER''];
          self1 = insert_symbol sh1 (length sh) self;
          sh2 = sh1 @ [BuiltinTypeSymbol ''REAL''];
          self2 = insert_symbol sh2 (length sh1) self1
      in (self2, sh2))"

text \<open>\<open>__init__(self, scope_name, scopeType, scope_level, enclosing_scope=None)\<close>. The
  field \<open>scopeType\<close> is assigned the name \<open>TokenType\<close>, not the parameter; the class attribute
  \<open>hasReturnStatement = False\<close> is what an instance reads until it is assigned.\<close>

definition ScopedSymbolTable_init ::
  "Symbol list \<Rightarrow> string \<Rightarrow> TokenType \<Rightarrow> int \<Rightarrow> nat option \<Rightarrow> ScopedSymbolTable \<times> Symbol list" where
  "ScopedSymbolTable_init sh scope_name' scopeType' scope_level' enclosing_scope' =
     init_builtins sh
       \<lparr>symbols = [], scope_name = scope_name', scopeType = TokenType_class,
        scope_level = scope_level', enclosing_scope = enclosing_scope',
        hasReturnStatement = False\<rparr>"

text \<open>Attributes that the analyzer reads but that no \<open>ScopedSymbolTable\<close> has: the
  constructor sets \<open>scope_name\<close> and \<open>enclosing_scope\<close>, so reading \<open>ScopeName\<close> or
  \<open>enclosingScope\<close> finds nothing and Python raises \<open>AttributeError\<close>.\<close>

definition ScopedSymbolTable_ScopeName :: "ScopedSymbolTable \<Rightarrow> string option" where
  "ScopedSymbolTable_ScopeName self = None"

definition ScopedSymbolTable_enclosingScope :: "ScopedSymbolTable \<Rightarrow> nat option option" where
  "ScopedSymbolTable_enclosingScope self = None"

subsection \<open>The analyzer state\<close>

record SemanticAnalyzer =
  symbol_heap :: "Symbol list"
  scope_heap :: "ScopedSymbolTable list"
  current_scope :: "nat option"

datatype outcome = Done SemanticAnalyzer | Raise error SemanticAnalyzer

fun state_of :: "outcome \<Rightarrow> SemanticAnalyzer" where
  "state_of (Done s) = s"
| "state_of (Raise e s) = s"

text \<open>\<open>lookup(self, name, current_scope_only=False)\<close> on the table at address \<open>self\<close>.
  The state is threaded through and returned with the symbol found (or \<open>None\<close>). The
  recursion follows \<open>enclosing_scope\<close>; a chain that never ends gives no result.\<close>

partial_function (option) lookup ::
  "SemanticAnalyzer \<Rightarrow> nat \<Rightarrow> string \<Rightarrow> bool \<Rightarrow> (nat option \<times> SemanticAnalyzer) option" where
  "lookup s self nm current_scope_only =
     (case map_of (symbols (scope_heap s ! self)) nm of
        Some symbol \<Rightarrow> Some (Some symbol, s)
      | None \<Rightarrow>
          if current_scope_only then Some (None, s)
          else (case enclosing_scope (scope_heap s ! self) of
                  Some e \<Rightarrow> lookup s e nm False
                | None \<Rightarrow> Some (None, s)))"

text \<open>Object creation and the mutations the analyzer performs.\<close>

definition new_symbol :: "Symbol \<Rightarrow> SemanticAnalyzer \<Rightarrow> nat \<times> SemanticAnalyzer" where
  "new_symbol sy s = (length (symbol_heap s), s\<lparr>symbol_heap := symbol_heap s @ [sy]\<rparr>)"

definition new_scope ::
  "string \<Rightarrow> TokenType \<Rightarrow> int \<Rightarrow> nat option \<Rightarrow> SemanticAnalyzer \<Rightarrow> nat \<times> SemanticAnalyzer" where
  "new_scope nm ty lvl encl s =
     (let (sc, sh) = ScopedSymbolTable_init (symbol_heap s) nm ty lvl encl
      in (length (scope_heap s), s\<lparr>symbol_heap := sh, scope_heap := scope_heap s @ [sc]\<rparr>))"

definition scope_insert :: "nat \<Rightarrow> nat \<Rightarrow> SemanticAnalyzer \<Rightarrow> SemanticAnalyzer" where
  "scope_insert a symbol s =
     s\<lparr>scope_heap := (scope_heap s)[a := insert_symbol (symbol_heap s) symbol (scope_heap s ! a)]\<rparr>"

text \<open>\<open>proc_symbol.params.append(var_symbol)\<close>: the symbol object itself is changed, so
  every table that holds a reference to it sees the longer list.\<close>

definition params_append :: "nat \<Rightarrow> nat \<Rightarrow> SemanticAnalyzer \<Rightarrow> SemanticAnalyzer" where
  "params_append proc_symbol var_symbol s =
     s\<lparr>symbol_heap := (symbol_heap s)[proc_symbol :=
          ProcedureSymbol (name (symbol_heap s ! proc_symbol))
                          (params (symbol_heap s ! proc_symbol) @ [var_symbol])]\<rparr>"

text \<open>\<open>SemanticAnalyzer.__init__\<close>:
  \<open>self.current_scope = ScopedSymbolTable("initial", TokenType.PROGRAM, 1)\<close>.\<close>

definition SemanticAnalyzer_init :: SemanticAnalyzer where
  "SemanticAnalyzer_init =
     (let (a, s) = new_scope ''initial'' PROGRAM 1 None
                     \<lparr>symbol_heap = [], scope_heap = [], current_scope = None\<rparr>
      in s\<lparr>current_scope := Some a\<rparr>)"

text \<open>Creating a scope whose enclosing scope is the current one and making it current,
  as the three scope-opening visits do.\<close>

definition push_scope :: "string \<Rightarrow> TokenType \<Rightarrow> int \<Rightarrow> SemanticAnalyzer \<Rightarrow> SemanticAnalyzer" where
  "push_scope nm ty lvl s =
     (let (a, s1) = new_scope nm ty lvl (current_scope s) s in s1\<lparr>current_scope := Some a\<rparr>)"

text \<open>\<open>self.current_scope = self.current_scope.enclosing_scope\<close>.\<close>

definition pop_scope :: "SemanticAnalyzer \<Rightarrow> outcome" where
  "pop_scope s =
     (case current_scope s of
        None \<Rightarrow> Raise (AttributeError ''enclosing_scope'') s
      | Some cur \<Rightarrow> Done (s\<lparr>current_scope := enclosing_scope (scope_heap s ! cur)\<rparr>))"

subsection \<open>The syntax tree\<close>

text \<open>Modelled from the spec: the node classes other than \<open>Num\<close>, \<open>BinOp\<close> and \<open>UnaryOp\<close>
  (which ast.py defines) are not part of the sources at hand. Each constructor carries the
  attributes that the handler of that node kind reads in sts.py, in the shapes the
  specification lists: \<open>param{type_node.value, var_node.value}\<close>,
  \<open>VarDecl{type_node.value, var_node.value, var_node.token}\<close>, \<open>Assign{left.value, token,
  right}\<close>, \<open>Var{value, token}\<close>, \<open>While{condition}\<close> and so on.\<close>

datatype Param = Param (type_node_value: string) (var_node_value: string)

datatype node =
    Program node
  | Block "node list" node
  | Compound "node list"
  | NoOp
  | Type
  | BinOp node Token node
  | ProcedureDecl string "Param list" node
  | FunctionDecl string "Param list" node node Token
  | VarDecl string string Token
  | Assign string Token node
  | Var string Token
  | Num Token
  | UnaryOp Token node
  | ProcedureCall "node list"
  | Call "node list"
  | Condition node node "node option"
  | Then node
  | MyElse node
  | While node
  | MyDo node

text \<open>ast.py builds a \<open>UnaryOp\<close> with the attributes \<open>token\<close>, \<open>op\<close> and \<open>expr\<close>; it has no
  attribute \<open>right\<close>. A \<open>Param\<close> has \<open>type_node\<close> and \<open>var_node\<close>; it has no \<open>typeNode\<close>.\<close>

definition UnaryOp_right :: "Token \<Rightarrow> node \<Rightarrow> node option" where
  [simp]: "UnaryOp_right op expr = None"

definition Param_typeNode_value :: "Param \<Rightarrow> string option" where
  "Param_typeNode_value param = None"

subsection \<open>SemanticAnalyzer: the handlers without a subtree to visit\<close>

text \<open>\<open>visit_VarDecl\<close>.\<close>

definition visit_VarDecl :: "string \<Rightarrow> string \<Rightarrow> Token \<Rightarrow> SemanticAnalyzer \<Rightarrow> outcome" where
  "visit_VarDecl type_name var_name var_token s =
     (case current_scope s of
        None \<Rightarrow> Raise (AttributeError ''lookup'') s
      | Some cur \<Rightarrow>
          (case lookup s cur type_name False of
             None \<Rightarrow> Raise RecursionError s
           | Some (type_symbol, s1) \<Rightarrow>
               (case new_symbol (VarSymbol var_name type_symbol) s1 of
                  (var_symbol, s2) \<Rightarrow>
                    (case lookup s2 cur var_name True of
                       None \<Rightarrow> Raise RecursionError s2
                     | Some (Some found, s3) \<Rightarrow> Raise (SemanticError DUPLICATE_ID var_token) s3
                     | Some (None, s3) \<Rightarrow> Done (scope_insert cur var_symbol s3)))))"

text \<open>\<open>visit_Var\<close>.\<close>

definition visit_Var :: "string \<Rightarrow> Token \<Rightarrow> SemanticAnalyzer \<Rightarrow> outcome" where
  "visit_Var var_name tok s =
     (case current_scope s of
        None \<Rightarrow> Raise (AttributeError ''lookup'') s
      | Some cur \<Rightarrow>
          (case lookup s cur var_name False of
             None \<Rightarrow> Raise RecursionError s
           | Some (None, s1) \<Rightarrow> Raise (SemanticError ID_NOT_FOUND tok) s1
           | Some (Some var_symbol, s1) \<Rightarrow> Done s1))"

text \<open>\<open>visit_Assign\<close> up to, and without, the visit of \<open>node.right\<close>. In
  \<open>currentScope.scopeType == TokenType.FUNCTION and varName == currentScope.ScopeName\<close>
  the right operand is evaluated only when the left one is true.\<close>

definition visit_Assign_left :: "string \<Rightarrow> Token \<Rightarrow> SemanticAnalyzer \<Rightarrow> outcome" where
  "visit_Assign_left varName tok s =
     (case current_scope s of
        None \<Rightarrow> Raise (AttributeError ''scopeType'') s
      | Some currentScope \<Rightarrow>
          let resolve =
            (case lookup s currentScope varName False of
               None \<Rightarrow> Raise RecursionError s
             | Some (None, s1) \<Rightarrow> Raise (SemanticError ID_NOT_FOUND tok) s1
             | Some (Some var_symbol, s1) \<Rightarrow> Done s1)
          in
          if scopeType (scope_heap s ! currentScope) = TokenType_member FUNCTION then
            (case ScopedSymbolTable_ScopeName (scope_heap s ! currentScope) of
               None \<Rightarrow> Raise (AttributeError ''ScopeName'') s
             | Some scope_nm \<Rightarrow>
                 if varName = scope_nm then
                   Done (s\<lparr>scope_heap := (scope_heap s)[currentScope :=
                            (scope_heap s ! currentScope)\<lparr>hasReturnStatement := True\<rparr>]\<rparr>)
                 else resolve)
          else resolve)"

text \<open>\<open>visit_ProcedureDecl\<close>: the body of the loop over \<open>node.params\<close>, and the loop.\<close>

definition ProcedureDecl_param :: "nat \<Rightarrow> Param \<Rightarrow> SemanticAnalyzer \<Rightarrow> outcome" where
  "ProcedureDecl_param proc_symbol param s =
     (case current_scope s of
        None \<Rightarrow> Raise (AttributeError ''lookup'') s
      | Some cur \<Rightarrow>
          (case lookup s cur (type_node_value param) False of
             None \<Rightarrow> Raise RecursionError s
           | Some (param_type, s1) \<Rightarrow>
               (case new_symbol (VarSymbol (var_node_value param) param_type) s1 of
                  (var_symbol, s2) \<Rightarrow>
                    Done (params_append proc_symbol var_symbol
                            (scope_insert cur var_symbol s2)))))"

fun ProcedureDecl_params :: "nat \<Rightarrow> Param list \<Rightarrow> SemanticAnalyzer \<Rightarrow> outcome" where
  "ProcedureDecl_params proc_symbol [] s = Done s"
| "ProcedureDecl_params proc_symbol (param # rest) s =
     (case ProcedureDecl_param proc_symbol param s of
        Raise e s1 \<Rightarrow> Raise e s1
      | Done s1 \<Rightarrow> ProcedureDecl_params proc_symbol rest s1)"

text \<open>\<open>visit_ProcedureDecl\<close> up to, and without, the visit of \<open>node.blockNode\<close>.\<close>

definition ProcedureDecl_enter :: "string \<Rightarrow> Param list \<Rightarrow> SemanticAnalyzer \<Rightarrow> outcome" where
  "ProcedureDecl_enter proc_name ps s =
     (case new_symbol (ProcedureSymbol proc_name []) s of
        (proc_symbol, s1) \<Rightarrow>
          (case current_scope s1 of
             None \<Rightarrow> Raise (AttributeError ''insert'') s1
           | Some cur \<Rightarrow>
               let s2 = scope_insert cur proc_symbol s1;
                   s3 = push_scope proc_name PROCEDURE (scope_level (scope_heap s2 ! cur) + 1) s2
               in ProcedureDecl_params proc_symbol ps s3))"

text \<open>\<open>visit_FunctionDecl\<close>: the body of the loop over \<open>node.params\<close>, which reads
  \<open>param.typeNode\<close>, and the loop.\<close>

definition FunctionDecl_param :: "nat \<Rightarrow> Param \<Rightarrow> SemanticAnalyzer \<Rightarrow> outcome" where
  "FunctionDecl_param funcSymbol param s =
     (case current_scope s of
        None \<Rightarrow> Raise (AttributeError ''lookup'') s
      | Some cur \<Rightarrow>
          (case Param_typeNode_value param of
             None \<Rightarrow> Raise (AttributeError ''typeNode'') s
           | Some type_name \<Rightarrow>
               (case lookup s cur type_name False of
                  None \<Rightarrow> Raise RecursionError s
                | Some (paramType, s1) \<Rightarrow>
                    (case new_symbol (VarSymbol (var_node_value param) paramType) s1 of
                       (varSymbol, s2) \<Rightarrow>
                         Done (params_append funcSymbol varSymbol
                                 (scope_insert cur varSymbol s2))))))"

fun FunctionDecl_params :: "nat \<Rightarrow> Param list \<Rightarrow> SemanticAnalyzer \<Rightarrow> outcome" where
  "FunctionDecl_params funcSymbol [] s = Done s"
| "FunctionDecl_params funcSymbol (param # rest) s =
     (case FunctionDecl_param funcSymbol param s of
        Raise e s1 \<Rightarrow> Raise e s1
      | Done s1 \<Rightarrow> FunctionDecl_params funcSymbol rest s1)"

text \<open>\<open>visit_FunctionDecl\<close> up to, and without, the visit of \<open>node.blockNode\<close>
  (\<open>visit_Type\<close> on the return type does nothing).\<close>

definition FunctionDecl_enter :: "string \<Rightarrow> Param list \<Rightarrow> SemanticAnalyzer \<Rightarrow> outcome" where
  "FunctionDecl_enter funcName ps s =
     (case new_symbol (ProcedureSymbol funcName []) s of
        (funcSymbol, s1) \<Rightarrow>
          (case current_scope s1 of
             None \<Rightarrow> Raise (AttributeError ''insert'') s1
           | Some cur \<Rightarrow>
               let s2 = scope_insert cur funcSymbol s1;
                   s3 = push_scope funcName FUNCTION (scope_level (scope_heap s2 ! cur) + 1) s2
               in FunctionDecl_params funcSymbol ps s3))"

text \<open>\<open>visit_FunctionDecl\<close> after the visit of the body: the test of
  \<open>procedureScope.hasReturnStatement\<close> on the scope object created on entry, then
  \<open>self.current_scope = self.current_scope.enclosingScope\<close>.\<close>

definition FunctionDecl_leave :: "nat \<Rightarrow> Token \<Rightarrow> SemanticAnalyzer \<Rightarrow> outcome" where
  "FunctionDecl_leave procedureScope tok s =
     (if hasReturnStatement (scope_heap s ! procedureScope) = False then
        Raise (SemanticError MISSING_RETURN tok) s
      else
        (case current_scope s of
           None \<Rightarrow> Raise (AttributeError ''enclosingScope'') s
         | Some cur \<Rightarrow>
             (case ScopedSymbolTable_enclosingScope (scope_heap s ! cur) of
                None \<Rightarrow> Raise (AttributeError ''enclosingScope'') s
              | Some e \<Rightarrow> Done (s\<lparr>current_scope := e\<rparr>))))"

subsection \<open>SemanticAnalyzer: the traversal\<close>

text \<open>\<open>visit\<close> routes a node to the handler of its kind; \<open>visit_each\<close> is the
  \<open>for child in ...: self.visit(child)\<close> loop. A raise ends the traversal with the state at
  that moment. The scope object a \<open>FunctionDecl\<close> creates gets the address
  \<open>length (scope_heap s)\<close>, the next free one on entry.\<close>

fun visit :: "node \<Rightarrow> SemanticAnalyzer \<Rightarrow> outcome"
  and visit_each :: "node list \<Rightarrow> SemanticAnalyzer \<Rightarrow> outcome" where
  "visit (Program block) s =
     (case visit block (push_scope ''global'' PROGRAM 1 s) of
        Raise e s1 \<Rightarrow> Raise e s1
      | Done s1 \<Rightarrow> pop_scope s1)"
| "visit (Block declarations compound_statement) s =
     (case visit_each declarations s of
        Raise e s1 \<Rightarrow> Raise e s1
      | Done s1 \<Rightarrow> visit compound_statement s1)"
| "visit (Compound children) s = visit_each children s"
| "visit NoOp s = Done s"
| "visit Type s = Done s"
| "visit (BinOp left op right) s =
     (case visit left s of
        Raise e s1 \<Rightarrow> Raise e s1
      | Done s1 \<Rightarrow> visit right s1)"
| "visit (ProcedureDecl procName ps blockNode) s =
     (case ProcedureDecl_enter procName ps s of
        Raise e s1 \<Rightarrow> Raise e s1
      | Done s1 \<Rightarrow>
          (case visit blockNode s1 of
             Raise e s2 \<Rightarrow> Raise e s2
           | Done s2 \<Rightarrow> pop_scope s2))"
| "visit (FunctionDecl funcName ps returnType blockNode tok) s =
     (case FunctionDecl_enter funcName ps s of
        Raise e s1 \<Rightarrow> Raise e s1
      | Done s1 \<Rightarrow>
          (case visit blockNode s1 of
             Raise e s2 \<Rightarrow> Raise e s2
           | Done s2 \<Rightarrow> FunctionDecl_leave (length (scope_heap s)) tok s2))"
| "visit (VarDecl type_name var_name var_token) s = visit_VarDecl type_name var_name var_token s"
| "visit (Assign left_value tok right) s =
     (case visit_Assign_left left_value tok s of
        Raise e s1 \<Rightarrow> Raise e s1
      | Done s1 \<Rightarrow> visit right s1)"
| "visit (Var v tok) s = visit_Var v tok s"
| "visit (Num tok) s = Done s"
| "visit (UnaryOp op expr) s =
     (case UnaryOp_right op expr of
        None \<Rightarrow> Raise (AttributeError ''right'') s
      | Some operand \<Rightarrow> visit operand s)"
| "visit (ProcedureCall actual_params) s = visit_each actual_params s"
| "visit (Call actual_params) s = visit_each actual_params s"
| "visit (Condition condition then_node myElse) s =
     (case visit condition s of
        Raise e s1 \<Rightarrow> Raise e s1
      | Done s1 \<Rightarrow>
          (case visit then_node s1 of
             Raise e s2 \<Rightarrow> Raise e s2
           | Done s2 \<Rightarrow>
               (case myElse of
                  None \<Rightarrow> Done s2
                | Some else_node \<Rightarrow> visit else_node s2)))"
| "visit (Then child) s = visit child s"
| "visit (MyElse child) s = visit child s"
| "visit (While condition) s = visit condition s"
| "visit (MyDo child) s = visit child s"
| "visit_each [] s = Done s"
| "visit_each (n # ns) s =
     (case visit n s of
        Raise e s1 \<Rightarrow> Raise e s1
      | Done s1 \<Rightarrow> visit_each ns s1)"

subsection \<open>Executable lookup, observers and well-formed stores\<close>

declare lookup.simps [code]

fun raised :: "outcome \<Rightarrow> error option" where
  "raised (Done s) = None"
| "raised (Raise e s) = Some e"

text \<open>A reference in a running Python program always points to an object, and a scope is
  created after the scope that encloses it. \<open>wf_state\<close> says so for the store: the current
  scope is allocated, and every \<open>enclosing_scope\<close> reference points to an older table.\<close>

definition wf_state :: "SemanticAnalyzer \<Rightarrow> bool" where
  "wf_state s \<longleftrightarrow>
     (\<forall>a \<in> {..<length (scope_heap s)}.
        case enclosing_scope (scope_heap s ! a) of None \<Rightarrow> True | Some e \<Rightarrow> e < a) \<and>
     (case current_scope s of None \<Rightarrow> True | Some c \<Rightarrow> c < length (scope_heap s))"

text \<open>The scope tables that can be reached from the table at address \<open>a\<close> by following
  \<open>enclosing_scope\<close>.\<close>

inductive reaches :: "SemanticAnalyzer \<Rightarrow> nat \<Rightarrow> nat \<Rightarrow> bool" for s :: SemanticAnalyzer where
  reaches_self: "reaches s a a"
| reaches_enclosing:
    "reaches s a b \<Longrightarrow> enclosing_scope (scope_heap s ! b) = Some c \<Longrightarrow> reaches s a c"

text \<open>What a visit that returns leaves alone: the current scope reference, the
  \<open>enclosing_scope\<close> and \<open>scope_level\<close> of every table that existed, every such table other
  than the current one, and every symbol object that existed.\<close>

definition frame :: "SemanticAnalyzer \<Rightarrow> SemanticAnalyzer \<Rightarrow> bool" where
  "frame s s' \<longleftrightarrow>
     current_scope s' = current_scope s \<and>
     length (scope_heap s) \<le> length (scope_heap s') \<and>
     length (symbol_heap s) \<le> length (symbol_heap s') \<and>
     (\<forall>b < length (scope_heap s).
        enclosing_scope (scope_heap s' ! b) = enclosing_scope (scope_heap s ! b) \<and>
        scope_level (scope_heap s' ! b) = scope_level (scope_heap s ! b) \<and>
        (Some b \<noteq> current_scope s \<longrightarrow> scope_heap s' ! b = scope_heap s ! b)) \<and>
     (\<forall>i < length (symbol_heap s). symbol_heap s' ! i = symbol_heap s ! i)"

text \<open>The node kinds whose handler opens a scope and closes it with
  \<open>self.current_scope = self.current_scope.enclosing_scope\<close>. (\<open>visit_FunctionDecl\<close> opens
  a scope too, but reads \<open>enclosingScope\<close> on exit.)\<close>

fun closes_scope :: "node \<Rightarrow> bool" where
  "closes_scope (Program block) = True"
| "closes_scope (ProcedureDecl procName ps blockNode) = True"
| "closes_scope n = False"

text \<open>The states that the analyzer can move to: every handler is a sequence of these
  steps (object creation, \<open>insert\<close>, \<open>params.append\<close>, opening a scope, assigning
  \<open>current_scope\<close>, assigning \<open>hasReturnStatement\<close>).\<close>

inductive evolves :: "SemanticAnalyzer \<Rightarrow> SemanticAnalyzer \<Rightarrow> bool" for s :: SemanticAnalyzer where
  evolves_refl: "evolves s s"
| evolves_new_symbol: "evolves s s1 \<Longrightarrow> evolves s (snd (new_symbol sy s1))"
| evolves_scope_insert: "evolves s s1 \<Longrightarrow> evolves s (scope_insert a v s1)"
| evolves_params_append: "evolves s s1 \<Longrightarrow> evolves s (params_append p v s1)"
| evolves_push_scope: "evolves s s1 \<Longrightarrow> evolves s (push_scope nm ty lvl s1)"
| evolves_current: "evolves s s1 \<Longrightarrow> evolves s (s1\<lparr>current_scope := c\<rparr>)"
| evolves_return:
    "evolves s s1 \<Longrightarrow>
     evolves s (s1\<lparr>scope_heap := (scope_heap s1)[a :=
                    (scope_heap s1 ! a)\<lparr>hasReturnStatement := True\<rparr>]\<rparr>)"

section \<open>Properties of the analyzer\<close>

subsection \<open>lookup\<close>

lemma lookup_same_aux: "lookup s a nm b = Some y \<Longrightarrow> snd y = s"
  by (rule lookup.raw_induct[rotated 1, where P = "\<lambda>s a nm b y. snd y = s"])
     (auto split: option.splits if_splits)

lemma lookup_same: "lookup s a nm b = Some (r, s') \<Longrightarrow> s' = s"
  using lookup_same_aux by fastforce

lemma lookup_local: "lookup s a nm True = Some (map_of (symbols (scope_heap s ! a)) nm, s)"
  by (subst lookup.simps) (simp split: option.splits)

lemma wf_stateD:
  "wf_state s \<Longrightarrow> a < length (scope_heap s) \<Longrightarrow> enclosing_scope (scope_heap s ! a) = Some e \<Longrightarrow> e < a"
  by (auto simp: wf_state_def dest!: bspec[where x = a])

lemma lookup_returns:
  assumes wf: "wf_state s"
  shows "a < length (scope_heap s) \<Longrightarrow> \<exists>r. lookup s a nm b = Some (r, s)"
proof (induction a arbitrary: b rule: less_induct)
  case (less a)
  show ?case
  proof (cases "map_of (symbols (scope_heap s ! a)) nm")
    case (Some v)
    then show ?thesis by (subst lookup.simps) simp
  next
    case None
    note loc = None
    show ?thesis
    proof (cases "enclosing_scope (scope_heap s ! a)")
      case None
      then show ?thesis by (subst lookup.simps) (simp add: loc)
    next
      case (Some e)
      from wf_stateD[OF wf less.prems Some] have ea: "e < a" .
      with less.prems have "e < length (scope_heap s)" by simp
      from less.IH[OF ea this, of False] obtain r where "lookup s e nm False = Some (r, s)" by blast
      then show ?thesis by (subst lookup.simps) (simp add: loc Some)
    qed
  qed
qed

subsection \<open>Every handler moves along \<open>evolves\<close>\<close>

lemmas prim_defs = new_symbol_def scope_insert_def params_append_def push_scope_def
  new_scope_def ScopedSymbolTable_init_def init_builtins_def insert_symbol_def Let_def

lemma evolves_trans: "evolves s1 s2 \<Longrightarrow> evolves s s1 \<Longrightarrow> evolves s s2"
  by (induction rule: evolves.induct) (auto intro: evolves.intros)

lemma evolves_new_symbol': "new_symbol sy s1 = (v, s2) \<Longrightarrow> evolves s s1 \<Longrightarrow> evolves s s2"
  using evolves_new_symbol[of s s1 sy] by simp

lemma evolves_visit_VarDecl: "evolves s (state_of (visit_VarDecl ty nm tok s))"
  unfolding visit_VarDecl_def
  by (auto split: option.splits prod.splits dest!: lookup_same
      intro!: evolves_scope_insert evolves_refl intro: evolves_new_symbol')

lemma evolves_visit_Var: "evolves s (state_of (visit_Var nm tok s))"
  unfolding visit_Var_def
  by (auto split: option.splits prod.splits dest!: lookup_same intro: evolves.intros)

lemma evolves_visit_Assign_left: "evolves s (state_of (visit_Assign_left nm tok s))"
  unfolding visit_Assign_left_def Let_def
  by (auto split: option.splits prod.splits dest!: lookup_same intro: evolves.intros)

lemma evolves_state_of_trans:
  "evolves s (state_of r) \<Longrightarrow> (\<And>s1. r = Done s1 \<Longrightarrow> evolves s1 (state_of (f s1))) \<Longrightarrow>
   evolves s (state_of (case r of Raise e s1 \<Rightarrow> Raise e s1 | Done s1 \<Rightarrow> f s1))"
  by (cases r) (auto intro: evolves_trans)

lemma evolves_ProcedureDecl_param: "evolves s (state_of (ProcedureDecl_param p prm s))"
  unfolding ProcedureDecl_param_def
  by (auto split: option.splits prod.splits dest!: lookup_same
      intro!: evolves_params_append evolves_scope_insert intro: evolves_new_symbol' evolves_refl)

lemma evolves_ProcedureDecl_params: "evolves s (state_of (ProcedureDecl_params p ps s))"
proof (induction ps arbitrary: s)
  case Nil
  show ?case by (simp add: evolves_refl)
next
  case (Cons prm rest)
  show ?case unfolding ProcedureDecl_params.simps
    by (rule evolves_state_of_trans[OF evolves_ProcedureDecl_param]) (rule Cons)
qed

lemma evolves_FunctionDecl_params: "evolves s (state_of (FunctionDecl_params p ps s))"
  by (cases ps)
     (auto simp: FunctionDecl_param_def Param_typeNode_value_def evolves_refl split: option.splits)

lemma evolves_ProcedureDecl_enter: "evolves s (state_of (ProcedureDecl_enter nm ps s))"
  unfolding ProcedureDecl_enter_def Let_def
  by (auto split: option.splits prod.splits
      intro!: evolves_trans[OF evolves_ProcedureDecl_params] evolves_push_scope evolves_scope_insert
      intro: evolves_new_symbol' evolves_refl)

lemma evolves_FunctionDecl_enter: "evolves s (state_of (FunctionDecl_enter nm ps s))"
  unfolding FunctionDecl_enter_def Let_def
  by (auto split: option.splits prod.splits
      intro!: evolves_trans[OF evolves_FunctionDecl_params] evolves_push_scope evolves_scope_insert
      intro: evolves_new_symbol' evolves_refl)

lemma evolves_pop_scope: "evolves s (state_of (pop_scope s))"
  unfolding pop_scope_def by (auto split: option.splits intro: evolves.intros)

lemma evolves_FunctionDecl_leave: "evolves s (state_of (FunctionDecl_leave p tok s))"
  unfolding FunctionDecl_leave_def
  by (auto simp: ScopedSymbolTable_enclosingScope_def split: option.splits intro: evolves.intros)

lemma evolves_visit:
  "evolves s (state_of (visit n s))"
  "evolves s (state_of (visit_each ns s))"
proof (induction n s and ns s rule: visit_visit_each.induct)
  case (1 block s)
  have "evolves s (push_scope ''global'' PROGRAM 1 s)" by (intro evolves.intros)
  with 1 have a: "evolves s (state_of (visit block (push_scope ''global'' PROGRAM 1 s)))"
    using evolves_trans by blast
  show ?case unfolding visit.simps
    by (rule evolves_state_of_trans[OF a]) (rule evolves_pop_scope)
next
  case (7 procName ps blockNode s)
  show ?case unfolding visit.simps
    apply (rule evolves_state_of_trans[OF evolves_ProcedureDecl_enter])
    apply (rule evolves_state_of_trans)
     apply (erule 7)
    apply (rule evolves_pop_scope)
    done
next
  case (8 funcName ps returnType blockNode tok s)
  show ?case unfolding visit.simps
    apply (rule evolves_state_of_trans[OF evolves_FunctionDecl_enter])
    apply (rule evolves_state_of_trans)
     apply (erule 8)
    apply (rule evolves_FunctionDecl_leave)
    done
next
  case (10 left_value tok right s)
  show ?case unfolding visit.simps
    by (rule evolves_state_of_trans[OF evolves_visit_Assign_left]) (erule 10)
next
  case (16 condition then_node myElse s)
  show ?case unfolding visit.simps
    apply (rule evolves_state_of_trans[OF 16(1)])
    apply (rule evolves_state_of_trans)
     apply (erule 16(2))
    apply (cases myElse)
     apply (simp add: evolves_refl)
    apply (simp add: 16(3))
    done
qed (auto intro: evolves_refl evolves_visit_VarDecl evolves_visit_Var evolves_state_of_trans)


subsection \<open>Invariants of the scope tables\<close>

lemma list_update_pred:
  assumes "\<forall>x \<in> set xs. P x" and "a < length xs \<Longrightarrow> P (f (xs ! a))"
  shows "\<forall>x \<in> set (xs[a := f (xs ! a)]). P x"
proof (cases "a < length xs")
  case True
  with assms show ?thesis by (auto dest!: set_update_subset_insert[THEN subsetD])
next
  case False
  then have "xs[a := f (xs ! a)] = xs" by (simp add: list_update_beyond)
  with assms show ?thesis by simp
qed

lemma evolves_scopeType:
  "evolves s s' \<Longrightarrow> \<forall>sc \<in> set (scope_heap s). scopeType sc = TokenType_class \<Longrightarrow>
   \<forall>sc \<in> set (scope_heap s'). scopeType sc = TokenType_class"
proof (induction rule: evolves.induct)
  case (evolves_scope_insert s1 a v)
  then show ?case
    unfolding scope_insert_def by (simp del: ball_simps) (rule list_update_pred, auto simp: insert_symbol_def)
next
  case (evolves_return s1 a)
  then show ?case
    by (simp del: ball_simps) (rule list_update_pred, auto)
qed (auto simp: prim_defs)

lemma evolves_builtins:
  "evolves s s' \<Longrightarrow>
   \<forall>sc \<in> set (scope_heap s). map_of (symbols sc) ''INTEGER'' \<noteq> None \<and> map_of (symbols sc) ''REAL'' \<noteq> None \<Longrightarrow>
   \<forall>sc \<in> set (scope_heap s'). map_of (symbols sc) ''INTEGER'' \<noteq> None \<and> map_of (symbols sc) ''REAL'' \<noteq> None"
proof (induction rule: evolves.induct)
  case (evolves_scope_insert s1 a v)
  then show ?case
    unfolding scope_insert_def
    by (simp del: ball_simps) (rule list_update_pred, auto simp: insert_symbol_def update_conv')
next
  case (evolves_return s1 a)
  then show ?case
    by (simp del: ball_simps) (rule list_update_pred, auto)
qed (auto simp: prim_defs)

lemma init_state:
  "SemanticAnalyzer_init =
     \<lparr>symbol_heap = [BuiltinTypeSymbol ''INTEGER'', BuiltinTypeSymbol ''REAL''],
      scope_heap = [\<lparr>symbols = [(''INTEGER'', 0), (''REAL'', 1)], scope_name = ''initial'',
                     scopeType = TokenType_class, scope_level = 1, enclosing_scope = None,
                     hasReturnStatement = False\<rparr>],
      current_scope = Some 0\<rparr>"
  by (simp add: SemanticAnalyzer_init_def prim_defs)

lemma ScopedSymbolTable_init_eq:
  "ScopedSymbolTable_init sh nm kind lvl encl =
     (\<lparr>symbols = [(''INTEGER'', length sh), (''REAL'', Suc (length sh))], scope_name = nm,
       scopeType = TokenType_class, scope_level = lvl, enclosing_scope = encl,
       hasReturnStatement = False\<rparr>,
      sh @ [BuiltinTypeSymbol ''INTEGER'', BuiltinTypeSymbol ''REAL''])"
  by (simp add: prim_defs nth_append)

lemma push_scope_eq:
  "push_scope nm kind lvl s =
     s\<lparr>symbol_heap := symbol_heap s @ [BuiltinTypeSymbol ''INTEGER'', BuiltinTypeSymbol ''REAL''],
       scope_heap := scope_heap s @
         [\<lparr>symbols = [(''INTEGER'', length (symbol_heap s)), (''REAL'', Suc (length (symbol_heap s)))],
           scope_name = nm, scopeType = TokenType_class, scope_level = lvl,
           enclosing_scope = current_scope s, hasReturnStatement = False\<rparr>],
       current_scope := Some (length (scope_heap s))\<rparr>"
  by (simp add: push_scope_def new_scope_def ScopedSymbolTable_init_eq)

subsection \<open>What a visit that returns leaves alone\<close>

lemma frame_refl: "frame s s"
  by (simp add: frame_def)

lemma frame_trans: "frame s s1 \<Longrightarrow> frame s1 s2 \<Longrightarrow> frame s s2"
  unfolding frame_def by (auto simp: less_le_trans)

lemma insert_symbol_fields [simp]:
  "enclosing_scope (insert_symbol sh v sc) = enclosing_scope sc"
  "scope_level (insert_symbol sh v sc) = scope_level sc"
  "scope_name (insert_symbol sh v sc) = scope_name sc"
  "scopeType (insert_symbol sh v sc) = scopeType sc"
  "hasReturnStatement (insert_symbol sh v sc) = hasReturnStatement sc"
  "symbols (insert_symbol sh v sc) = AList.update (name (sh ! v)) v (symbols sc)"
  by (simp_all add: insert_symbol_def)

lemma nth_update_field:
  assumes "\<And>x. g (f x) = g x"
  shows "g ((xs[a := f (xs ! a)]) ! b) = g (xs ! b)"
proof (cases "a < length xs")
  case True
  then show ?thesis using assms by (cases "b = a") simp_all
next
  case False
  then show ?thesis by (simp add: list_update_beyond)
qed

lemma scope_insert_fields [simp]:
  "current_scope (scope_insert a v s) = current_scope s"
  "symbol_heap (scope_insert a v s) = symbol_heap s"
  "length (scope_heap (scope_insert a v s)) = length (scope_heap s)"
  "enclosing_scope (scope_heap (scope_insert a v s) ! b) = enclosing_scope (scope_heap s ! b)"
  "scope_level (scope_heap (scope_insert a v s) ! b) = scope_level (scope_heap s ! b)"
  "b \<noteq> a \<Longrightarrow> scope_heap (scope_insert a v s) ! b = scope_heap s ! b"
  by (simp_all add: scope_insert_def nth_update_field)

lemma scope_insert_symbols:
  "a < length (scope_heap s) \<Longrightarrow>
   symbols (scope_heap (scope_insert a v s) ! a) =
     AList.update (name (symbol_heap s ! v)) v (symbols (scope_heap s ! a))"
  by (simp add: scope_insert_def)

lemma params_append_fields [simp]:
  "current_scope (params_append q v s) = current_scope s"
  "scope_heap (params_append q v s) = scope_heap s"
  "length (symbol_heap (params_append q v s)) = length (symbol_heap s)"
  "i \<noteq> q \<Longrightarrow> symbol_heap (params_append q v s) ! i = symbol_heap s ! i"
  by (simp_all add: params_append_def)

lemma frame_scope_insert_current:
  "current_scope s = Some a \<Longrightarrow> frame s (scope_insert a v s)"
  by (auto simp: frame_def)

lemma frame_append_symbol: "frame s (s\<lparr>symbol_heap := symbol_heap s @ xs\<rparr>)"
  by (simp add: frame_def nth_append)

lemma frame_visit_VarDecl: "visit_VarDecl ty nm tok s = Done s' \<Longrightarrow> frame s s'"
  unfolding visit_VarDecl_def new_symbol_def
  by (auto split: option.splits prod.splits dest!: lookup_same
      intro!: frame_trans[OF frame_append_symbol frame_scope_insert_current])

lemma frame_visit_Var: "visit_Var nm tok s = Done s' \<Longrightarrow> frame s s'"
  unfolding visit_Var_def
  by (auto split: option.splits prod.splits dest!: lookup_same intro: frame_refl)

lemma frame_visit_Assign_left: "visit_Assign_left nm tok s = Done s' \<Longrightarrow> frame s s'"
  unfolding visit_Assign_left_def Let_def ScopedSymbolTable_ScopeName_def
  by (auto split: option.splits prod.splits if_splits dest!: lookup_same intro: frame_refl)

lemma frame_scope_body:
  assumes f: "frame (push_scope nm ty lvl s) s2" and p: "pop_scope s2 = Done s'"
  shows "frame s s'"
    and "\<forall>b < length (scope_heap s). scope_heap s' ! b = scope_heap s ! b"
proof -
  let ?p = "length (scope_heap s)"
  from f have c2: "current_scope s2 = Some ?p" by (simp add: frame_def push_scope_eq)
  with p have s': "s' = s2\<lparr>current_scope := enclosing_scope (scope_heap s2 ! ?p)\<rparr>"
    by (simp add: pop_scope_def)
  from f have e: "enclosing_scope (scope_heap s2 ! ?p) = current_scope s"
    by (simp add: frame_def push_scope_eq)
  from f have old: "\<forall>b < ?p. scope_heap s2 ! b = scope_heap s ! b"
    by (auto simp: frame_def push_scope_eq nth_append)
  from f have len: "?p < length (scope_heap s2)" by (simp add: frame_def push_scope_eq)
  from f have sy: "length (symbol_heap s) \<le> length (symbol_heap s2)"
     "\<forall>i < length (symbol_heap s). symbol_heap s2 ! i = symbol_heap s ! i"
    by (auto simp: frame_def push_scope_eq nth_append)
  show "frame s s'" using s' e old len sy by (simp add: frame_def)
  show "\<forall>b < length (scope_heap s). scope_heap s' ! b = scope_heap s ! b" using s' old by simp
qed

lemma ProcedureDecl_param_effect:
  assumes "ProcedureDecl_param q prm s = Done s'"
  shows "current_scope s' = current_scope s \<and>
         length (scope_heap s') = length (scope_heap s) \<and>
         length (symbol_heap s') = Suc (length (symbol_heap s)) \<and>
         (\<forall>b. enclosing_scope (scope_heap s' ! b) = enclosing_scope (scope_heap s ! b) \<and>
              scope_level (scope_heap s' ! b) = scope_level (scope_heap s ! b) \<and>
              (Some b \<noteq> current_scope s \<longrightarrow> scope_heap s' ! b = scope_heap s ! b)) \<and>
         (\<forall>i < length (symbol_heap s). i \<noteq> q \<longrightarrow> symbol_heap s' ! i = symbol_heap s ! i)"
  using assms unfolding ProcedureDecl_param_def new_symbol_def
  by (auto split: option.splits prod.splits dest!: lookup_same simp: nth_append)

lemma ProcedureDecl_params_effect:
  "ProcedureDecl_params q ps s = Done s' \<Longrightarrow>
     current_scope s' = current_scope s \<and>
     length (scope_heap s') = length (scope_heap s) \<and>
     length (symbol_heap s') = length (symbol_heap s) + length ps \<and>
     (\<forall>b. enclosing_scope (scope_heap s' ! b) = enclosing_scope (scope_heap s ! b) \<and>
          scope_level (scope_heap s' ! b) = scope_level (scope_heap s ! b) \<and>
          (Some b \<noteq> current_scope s \<longrightarrow> scope_heap s' ! b = scope_heap s ! b)) \<and>
     (\<forall>i < length (symbol_heap s). i \<noteq> q \<longrightarrow> symbol_heap s' ! i = symbol_heap s ! i)"
proof (induction ps arbitrary: s)
  case Nil
  then show ?case by simp
next
  case (Cons prm rest)
  from Cons.prems obtain s1 where 1: "ProcedureDecl_param q prm s = Done s1"
    and 2: "ProcedureDecl_params q rest s1 = Done s'"
    by (auto split: outcome.splits)
  note a = ProcedureDecl_param_effect[OF 1] and b = Cons.IH[OF 2]
  show ?case using a b by auto
qed

lemma ProcedureDecl_enter_effect:
  assumes "ProcedureDecl_enter nm ps s = Done s1"
  shows "\<exists>a. current_scope s = Some a \<and>
           current_scope s1 = Some (length (scope_heap s)) \<and>
           length (scope_heap s1) = Suc (length (scope_heap s)) \<and>
           enclosing_scope (scope_heap s1 ! length (scope_heap s)) = Some a \<and>
           scope_level (scope_heap s1 ! length (scope_heap s)) = scope_level (scope_heap s ! a) + 1 \<and>
           (\<forall>b < length (scope_heap s).
              enclosing_scope (scope_heap s1 ! b) = enclosing_scope (scope_heap s ! b) \<and>
              scope_level (scope_heap s1 ! b) = scope_level (scope_heap s ! b) \<and>
              (b \<noteq> a \<longrightarrow> scope_heap s1 ! b = scope_heap s ! b)) \<and>
           length (symbol_heap s) \<le> length (symbol_heap s1) \<and>
           (\<forall>i < length (symbol_heap s). symbol_heap s1 ! i = symbol_heap s ! i)"
proof -
  from assms obtain a where a: "current_scope s = Some a"
    by (auto simp: ProcedureDecl_enter_def new_symbol_def split: option.splits)
  let ?q = "length (symbol_heap s)"
  let ?s2 = "scope_insert a ?q (s\<lparr>symbol_heap := symbol_heap s @ [ProcedureSymbol nm []]\<rparr>)"
  let ?s3 = "push_scope nm PROCEDURE (scope_level (scope_heap ?s2 ! a) + 1) ?s2"
  from assms a have l: "ProcedureDecl_params ?q ps ?s3 = Done s1"
    by (simp add: ProcedureDecl_enter_def new_symbol_def Let_def)
  note e = ProcedureDecl_params_effect[OF l]
  have c3: "current_scope ?s3 = Some (length (scope_heap s))" by (simp add: push_scope_eq)
  show ?thesis
    using e a unfolding c3
    by (auto simp: push_scope_eq nth_append)
qed

lemma FunctionDecl_leave_not_Done: "FunctionDecl_leave p tok s \<noteq> Done s'"
  by (simp add: FunctionDecl_leave_def ScopedSymbolTable_enclosingScope_def split: option.splits)

lemma visit_FunctionDecl_not_Done: "visit (FunctionDecl nm ps rt body tok) s \<noteq> Done s'"
  by (auto split: outcome.splits simp: FunctionDecl_leave_not_Done)

lemma frame_ProcedureDecl:
  assumes e: "ProcedureDecl_enter nm ps s = Done s1" and f: "frame s1 s2" and p: "pop_scope s2 = Done s'"
  shows "frame s s'"
proof -
  let ?p = "length (scope_heap s)"
  from ProcedureDecl_enter_effect[OF e] obtain a where a: "current_scope s = Some a"
    and c1: "current_scope s1 = Some ?p"
    and l1: "length (scope_heap s1) = Suc ?p"
    and e1: "enclosing_scope (scope_heap s1 ! ?p) = Some a"
    and o1: "\<forall>b < ?p. enclosing_scope (scope_heap s1 ! b) = enclosing_scope (scope_heap s ! b) \<and>
              scope_level (scope_heap s1 ! b) = scope_level (scope_heap s ! b) \<and>
              (b \<noteq> a \<longrightarrow> scope_heap s1 ! b = scope_heap s ! b)"
    and y1: "length (symbol_heap s) \<le> length (symbol_heap s1)"
       "\<forall>i < length (symbol_heap s). symbol_heap s1 ! i = symbol_heap s ! i"
    by blast
  from f c1 have c2: "current_scope s2 = Some ?p" by (simp add: frame_def)
  with p have s': "s' = s2\<lparr>current_scope := enclosing_scope (scope_heap s2 ! ?p)\<rparr>"
    by (simp add: pop_scope_def)
  from f l1 e1 have e2: "enclosing_scope (scope_heap s2 ! ?p) = Some a" by (simp add: frame_def)
  from f l1 c1 have o2: "\<forall>b < ?p. scope_heap s2 ! b = scope_heap s1 ! b" by (auto simp: frame_def)
  from f l1 have l2: "?p \<le> length (scope_heap s2)" by (simp add: frame_def)
  from f y1 have y2: "length (symbol_heap s) \<le> length (symbol_heap s2)"
     "\<forall>i < length (symbol_heap s). symbol_heap s2 ! i = symbol_heap s ! i"
    by (auto simp: frame_def)
  show ?thesis unfolding frame_def using s' a e2 o1 o2 l2 y2 by auto
qed

lemma frame_visit:
  "visit n s = Done s' \<Longrightarrow> frame s s'"
  "visit_each ns s = Done s' \<Longrightarrow> frame s s'"
proof (induction n s and ns s arbitrary: s' and s' rule: visit_visit_each.induct)
  case (1 block s)
  from "1.prems" obtain s2 where b: "visit block (push_scope ''global'' PROGRAM 1 s) = Done s2"
    and p: "pop_scope s2 = Done s'" by (auto split: outcome.splits)
  from frame_scope_body(1)[OF "1.IH"[OF b] p] show ?case .
next
  case (2 declarations compound_statement s)
  from "2.prems" obtain s1 where a: "visit_each declarations s = Done s1"
    and b: "visit compound_statement s1 = Done s'" by (auto split: outcome.splits)
  from frame_trans[OF "2.IH"(1)[OF a] "2.IH"(2)[OF a b]] show ?case .
next
  case (6 left op right s)
  from "6.prems" obtain s1 where a: "visit left s = Done s1"
    and b: "visit right s1 = Done s'" by (auto split: outcome.splits)
  from frame_trans[OF "6.IH"(1)[OF a] "6.IH"(2)[OF a b]] show ?case .
next
  case (7 procName ps blockNode s)
  from "7.prems" obtain s1 s2 where e: "ProcedureDecl_enter procName ps s = Done s1"
    and b: "visit blockNode s1 = Done s2" and p: "pop_scope s2 = Done s'"
    by (auto split: outcome.splits)
  from frame_ProcedureDecl[OF e "7.IH"[OF e b] p] show ?case .
next
  case (8 funcName ps returnType blockNode tok s)
  then show ?case using visit_FunctionDecl_not_Done by blast
next
  case (9 type_name var_name var_token s)
  then show ?case by (simp add: frame_visit_VarDecl)
next
  case (10 left_value tok right s)
  from "10.prems" obtain s1 where a: "visit_Assign_left left_value tok s = Done s1"
    and b: "visit right s1 = Done s'" by (auto split: outcome.splits)
  from frame_trans[OF frame_visit_Assign_left[OF a] "10.IH"[OF a b]] show ?case .
next
  case (11 v tok s)
  then show ?case by (simp add: frame_visit_Var)
next
  case (16 condition then_node myElse s)
  from "16.prems" obtain s1 s2 where a: "visit condition s = Done s1"
    and b: "visit then_node s1 = Done s2"
    and c: "(case myElse of None \<Rightarrow> Done s2 | Some else_node \<Rightarrow> visit else_node s2) = Done s'"
    by (auto split: outcome.splits)
  have "frame s2 s'"
  proof (cases myElse)
    case None
    with c show ?thesis by (simp add: frame_refl)
  next
    case (Some else_node)
    with c "16.IH"(3)[OF a b Some] show ?thesis by simp
  qed
  with frame_trans[OF "16.IH"(1)[OF a] "16.IH"(2)[OF a b]] show ?case
    using frame_trans by blast
next
  case (22 n ns s)
  from "22.prems" obtain s1 where a: "visit n s = Done s1"
    and b: "visit_each ns s1 = Done s'" by (auto split: outcome.splits)
  from frame_trans[OF "22.IH"(1)[OF a] "22.IH"(2)[OF a b]] show ?case .
qed (auto simp: frame_refl)

subsection \<open>Scopes that were opened\<close>

lemma evolves_static:
  "evolves s s' \<Longrightarrow>
   length (scope_heap s) \<le> length (scope_heap s') \<and>
   (\<forall>b < length (scope_heap s).
      scope_level (scope_heap s' ! b) = scope_level (scope_heap s ! b) \<and>
      enclosing_scope (scope_heap s' ! b) = enclosing_scope (scope_heap s ! b))"
proof (induction rule: evolves.induct)
  case (evolves_push_scope s1 nm ty lvl)
  then show ?case by (auto simp: push_scope_eq nth_append)
next
  case (evolves_return s1 a)
  then show ?case by (simp add: nth_update_field)
qed (auto simp: new_symbol_def)

lemma reaches_old:
  assumes wf: "wf_state s"
    and same: "\<forall>b < length (scope_heap s). enclosing_scope (scope_heap s' ! b) = enclosing_scope (scope_heap s ! b)"
  shows "reaches s' a b \<Longrightarrow> a < length (scope_heap s) \<Longrightarrow> b \<le> a"
proof (induction rule: reaches.induct)
  case (reaches_self a)
  show ?case by simp
next
  case (reaches_enclosing a b c)
  then have ba: "b \<le> a" by simp
  with reaches_enclosing.prems have bl: "b < length (scope_heap s)" by simp
  with same reaches_enclosing.hyps(2) have "enclosing_scope (scope_heap s ! b) = Some c" by simp
  from wf_stateD[OF wf bl this] ba show ?case by simp
qed

lemma closes_scope_grows:
  assumes "closes_scope n" and "visit n s = Done s'"
  shows "length (scope_heap s) < length (scope_heap s') \<and>
         enclosing_scope (scope_heap s' ! length (scope_heap s)) = current_scope s"
proof (cases n)
  case (Program block)
  with assms obtain s2 where b: "visit block (push_scope ''global'' PROGRAM 1 s) = Done s2"
    and p: "pop_scope s2 = Done s'" by (auto split: outcome.splits)
  from frame_visit(1)[OF b] have
    "Suc (length (scope_heap s)) \<le> length (scope_heap s2)"
    "enclosing_scope (scope_heap s2 ! length (scope_heap s)) = current_scope s"
    by (auto simp: frame_def push_scope_eq)
  moreover from p have "scope_heap s' = scope_heap s2"
    by (auto simp: pop_scope_def split: option.splits)
  ultimately show ?thesis by simp
next
  case (ProcedureDecl nm ps body)
  with assms obtain s1 s2 where e: "ProcedureDecl_enter nm ps s = Done s1"
    and b: "visit body s1 = Done s2" and p: "pop_scope s2 = Done s'"
    by (auto split: outcome.splits)
  from ProcedureDecl_enter_effect[OF e] frame_visit(1)[OF b]
  have "Suc (length (scope_heap s)) \<le> length (scope_heap s2)"
    "enclosing_scope (scope_heap s2 ! length (scope_heap s)) = current_scope s"
    by (auto simp: frame_def)
  moreover from p have "scope_heap s' = scope_heap s2"
    by (auto simp: pop_scope_def split: option.splits)
  ultimately show ?thesis by simp
qed (use assms in auto)

lemma ProcedureDecl_enter_push:
  "current_scope s = Some a \<Longrightarrow>
   ProcedureDecl_enter nm ps s =
     ProcedureDecl_params (length (symbol_heap s)) ps
       (push_scope nm PROCEDURE (scope_level (scope_heap s ! a) + 1)
          (scope_insert a (length (symbol_heap s))
             (s\<lparr>symbol_heap := symbol_heap s @ [ProcedureSymbol nm []]\<rparr>)))"
  by (simp add: ProcedureDecl_enter_def new_symbol_def Let_def)

lemma FunctionDecl_enter_push:
  "current_scope s = Some a \<Longrightarrow>
   FunctionDecl_enter nm ps s =
     FunctionDecl_params (length (symbol_heap s)) ps
       (push_scope nm FUNCTION (scope_level (scope_heap s ! a) + 1)
          (scope_insert a (length (symbol_heap s))
             (s\<lparr>symbol_heap := symbol_heap s @ [ProcedureSymbol nm []]\<rparr>)))"
  by (simp add: FunctionDecl_enter_def new_symbol_def Let_def)

lemma pushed_scope_stays:
  assumes "evolves (push_scope nm ty lvl s) s'"
  shows "length (scope_heap s) < length (scope_heap s') \<and>
         scope_level (scope_heap s' ! length (scope_heap s)) = lvl \<and>
         enclosing_scope (scope_heap s' ! length (scope_heap s)) = current_scope s"
  using evolves_static[OF assms] by (auto simp: push_scope_eq)

lemma evolves_Program:
  "evolves (push_scope ''global'' PROGRAM 1 s) (state_of (visit (Program block) s))"
  unfolding visit.simps
  by (rule evolves_state_of_trans[OF evolves_visit(1)]) (rule evolves_pop_scope)

lemma evolves_ProcedureDecl:
  assumes "current_scope s = Some a"
  shows "evolves (push_scope nm PROCEDURE (scope_level (scope_heap s ! a) + 1)
          (scope_insert a (length (symbol_heap s))
             (s\<lparr>symbol_heap := symbol_heap s @ [ProcedureSymbol nm []]\<rparr>)))
         (state_of (visit (ProcedureDecl nm ps body) s))"
  unfolding visit.simps ProcedureDecl_enter_push[OF assms]
  apply (rule evolves_state_of_trans[OF evolves_ProcedureDecl_params])
  apply (rule evolves_state_of_trans[OF evolves_visit(1)])
  apply (rule evolves_pop_scope)
  done

lemma evolves_FunctionDecl:
  assumes "current_scope s = Some a"
  shows "evolves (push_scope nm FUNCTION (scope_level (scope_heap s ! a) + 1)
          (scope_insert a (length (symbol_heap s))
             (s\<lparr>symbol_heap := symbol_heap s @ [ProcedureSymbol nm []]\<rparr>)))
         (state_of (visit (FunctionDecl nm ps rt body tok) s))"
  unfolding visit.simps FunctionDecl_enter_push[OF assms]
  apply (rule evolves_state_of_trans[OF evolves_FunctionDecl_params])
  apply (rule evolves_state_of_trans[OF evolves_visit(1)])
  apply (rule evolves_FunctionDecl_leave)
  done

subsection \<open>Declarations\<close>

lemma lookup_bound:
  "map_of (symbols (scope_heap s ! a)) nm = Some v \<Longrightarrow> lookup s a nm b = Some (Some v, s)"
  by (subst lookup.simps) simp

lemma wf_state_current: "wf_state s \<Longrightarrow> current_scope s = Some a \<Longrightarrow> a < length (scope_heap s)"
  by (simp add: wf_state_def)

lemma visit_VarDecl_eq:
  assumes "wf_state s" and "current_scope s = Some a"
  shows "\<exists>t. lookup s a ty False = Some (t, s) \<and>
           visit_VarDecl ty nm tok s =
             (case map_of (symbols (scope_heap s ! a)) nm of
                Some v \<Rightarrow> Raise (SemanticError DUPLICATE_ID tok)
                            (s\<lparr>symbol_heap := symbol_heap s @ [VarSymbol nm t]\<rparr>)
              | None \<Rightarrow> Done (scope_insert a (length (symbol_heap s))
                            (s\<lparr>symbol_heap := symbol_heap s @ [VarSymbol nm t]\<rparr>)))"
proof -
  from lookup_returns[OF assms(1) wf_state_current[OF assms]]
  obtain t where t: "lookup s a ty False = Some (t, s)" by blast
  show ?thesis
    using t assms(2)
    by (auto simp: visit_VarDecl_def new_symbol_def lookup_local split: option.splits)
qed

subsection \<open>The parameter loop of a procedure declaration\<close>

lemma ProcedureDecl_params_append:
  "ProcedureDecl_params q (xs @ ys) s =
     (case ProcedureDecl_params q xs s of
        Raise e s1 \<Rightarrow> Raise e s1
      | Done s1 \<Rightarrow> ProcedureDecl_params q ys s1)"
  by (induction xs arbitrary: s) (auto split: outcome.splits)

lemma ProcedureDecl_param_DoneD:
  assumes "ProcedureDecl_param q prm s = Done s'" and "current_scope s = Some p"
  shows "\<exists>t. lookup s p (type_node_value prm) False = Some (t, s) \<and>
           s' = params_append q (length (symbol_heap s))
                  (scope_insert p (length (symbol_heap s))
                     (s\<lparr>symbol_heap := symbol_heap s @ [VarSymbol (var_node_value prm) t]\<rparr>))"
  using assms unfolding ProcedureDecl_param_def new_symbol_def
  by (auto split: option.splits prod.splits dest!: lookup_same)

lemma ProcedureDecl_param_returns:
  assumes "wf_state s" and "current_scope s = Some p"
  shows "\<exists>s'. ProcedureDecl_param q prm s = Done s'"
proof -
  from lookup_returns[OF assms(1) wf_state_current[OF assms]]
  obtain t where "lookup s p (type_node_value prm) False = Some (t, s)" by blast
  then show ?thesis using assms(2) by (simp add: ProcedureDecl_param_def new_symbol_def)
qed

lemma wf_state_cong:
  assumes "wf_state s" and "current_scope s' = current_scope s"
    and "length (scope_heap s') = length (scope_heap s)"
    and "\<forall>b. enclosing_scope (scope_heap s' ! b) = enclosing_scope (scope_heap s ! b)"
  shows "wf_state s'"
  using assms by (auto simp: wf_state_def split: option.splits)

lemma wf_ProcedureDecl_param:
  "wf_state s \<Longrightarrow> ProcedureDecl_param q prm s = Done s' \<Longrightarrow> wf_state s'"
  using ProcedureDecl_param_effect[of q prm s s'] by (auto intro: wf_state_cong)

lemma ProcedureDecl_params_returns:
  "wf_state s \<Longrightarrow> current_scope s = Some p \<Longrightarrow> \<exists>s'. ProcedureDecl_params q ps s = Done s'"
proof (induction ps arbitrary: s)
  case Nil
  show ?case by simp
next
  case (Cons prm rest)
  from ProcedureDecl_param_returns[OF Cons.prems] obtain s1
    where 1: "ProcedureDecl_param q prm s = Done s1" by blast
  from ProcedureDecl_param_effect[OF 1] Cons.prems(2) have "current_scope s1 = Some p" by simp
  from Cons.IH[OF wf_ProcedureDecl_param[OF Cons.prems(1) 1] this] 1 show ?case by simp
qed

lemma wf_state_push:
  assumes "wf_state s" and "current_scope s = Some a"
  shows "wf_state (push_scope nm ty lvl (scope_insert a v (s\<lparr>symbol_heap := sh\<rparr>)))"
  using assms
  by (auto simp: wf_state_def push_scope_eq nth_append split: option.splits)

lemma upt_add_Suc: "[n..<Suc (n + k)] = n # [Suc n..<Suc (n + k)]"
  by (simp add: upt_conv_Cons del: upt_Suc)

lemma map_add_rev_Cons:
  "m(x \<mapsto> v) ++ map_of (rev zs) = m ++ map_of (rev ((x, v) # zs))"
  by (rule ext) (simp add: map_add_def split: option.splits)

lemma params_proc_symbol:
  "ProcedureDecl_params q ps s = Done s' \<Longrightarrow> current_scope s = Some p \<Longrightarrow>
   q < length (symbol_heap s) \<Longrightarrow> symbol_heap s ! q = ProcedureSymbol nm vs \<Longrightarrow>
   symbol_heap s' ! q =
     ProcedureSymbol nm (vs @ [length (symbol_heap s) ..< length (symbol_heap s) + length ps])"
proof (induction ps arbitrary: s vs)
  case Nil
  then show ?case by simp
next
  case (Cons prm rest)
  from Cons.prems(1) obtain s1 where 1: "ProcedureDecl_param q prm s = Done s1"
    and 2: "ProcedureDecl_params q rest s1 = Done s'" by (auto split: outcome.splits)
  from ProcedureDecl_param_DoneD[OF 1 Cons.prems(2)] obtain t where
    s1: "s1 = params_append q (length (symbol_heap s))
                  (scope_insert p (length (symbol_heap s))
                     (s\<lparr>symbol_heap := symbol_heap s @ [VarSymbol (var_node_value prm) t]\<rparr>))"
    by blast
  have c1: "current_scope s1 = Some p" using s1 Cons.prems(2) by simp
  have l1: "length (symbol_heap s1) = Suc (length (symbol_heap s))" using s1 by simp
  have q1: "symbol_heap s1 ! q = ProcedureSymbol nm (vs @ [length (symbol_heap s)])"
    using s1 Cons.prems(3,4) by (simp add: params_append_def nth_append)
  from Cons.IH[OF 2 c1 _ q1] Cons.prems(3) l1
  show ?case by (simp add: upt_add_Suc del: upt_Suc)
qed

lemma params_var_symbol:
  assumes d: "ProcedureDecl_params q ps s = Done s'" and c: "current_scope s = Some p"
    and q: "q < length (symbol_heap s)" and i: "i < length ps"
  shows "\<exists>si t. ProcedureDecl_params q (take i ps) s = Done si \<and>
           lookup si p (type_node_value (ps ! i)) False = Some (t, si) \<and>
           symbol_heap s' ! (length (symbol_heap s) + i) = VarSymbol (var_node_value (ps ! i)) t"
proof -
  from i have ps: "ps = take i ps @ (ps ! i # drop (Suc i) ps)"
    by (simp add: id_take_nth_drop)
  from d obtain si where a: "ProcedureDecl_params q (take i ps) s = Done si"
    and b: "ProcedureDecl_params q (ps ! i # drop (Suc i) ps) si = Done s'"
    by (subst (asm) ps, subst (asm) ProcedureDecl_params_append) (auto split: outcome.splits)
  from b obtain s1 where 1: "ProcedureDecl_param q (ps ! i) si = Done s1"
    and 2: "ProcedureDecl_params q (drop (Suc i) ps) s1 = Done s'"
    by (auto split: outcome.splits)
  from ProcedureDecl_params_effect[OF a] c i
  have ci: "current_scope si = Some p"
    and li: "length (symbol_heap si) = length (symbol_heap s) + i" by auto
  from ProcedureDecl_param_DoneD[OF 1 ci] obtain t where
    t: "lookup si p (type_node_value (ps ! i)) False = Some (t, si)" and
    s1: "s1 = params_append q (length (symbol_heap si))
                  (scope_insert p (length (symbol_heap si))
                     (si\<lparr>symbol_heap := symbol_heap si @ [VarSymbol (var_node_value (ps ! i)) t]\<rparr>))"
    by blast
  from q li have ne: "length (symbol_heap si) \<noteq> q" by simp
  have v1: "symbol_heap s1 ! length (symbol_heap si) = VarSymbol (var_node_value (ps ! i)) t"
    using s1 ne by simp
  have l1: "length (symbol_heap si) < length (symbol_heap s1)" using s1 by simp
  from ProcedureDecl_params_effect[OF 2] l1 ne
  have "symbol_heap s' ! length (symbol_heap si) = symbol_heap s1 ! length (symbol_heap si)"
    by blast
  with v1 li a t show ?thesis by auto
qed

lemma params_table:
  "ProcedureDecl_params q ps s = Done s' \<Longrightarrow> current_scope s = Some p \<Longrightarrow>
   p < length (scope_heap s) \<Longrightarrow>
   map_of (symbols (scope_heap s' ! p)) =
     map_of (symbols (scope_heap s ! p)) ++
     map_of (rev (zip (map var_node_value ps)
                      [length (symbol_heap s) ..< length (symbol_heap s) + length ps]))"
proof (induction ps arbitrary: s)
  case Nil
  then show ?case by simp
next
  case (Cons prm rest)
  from Cons.prems(1) obtain s1 where 1: "ProcedureDecl_param q prm s = Done s1"
    and 2: "ProcedureDecl_params q rest s1 = Done s'" by (auto split: outcome.splits)
  from ProcedureDecl_param_DoneD[OF 1 Cons.prems(2)] obtain t where
    s1: "s1 = params_append q (length (symbol_heap s))
                  (scope_insert p (length (symbol_heap s))
                     (s\<lparr>symbol_heap := symbol_heap s @ [VarSymbol (var_node_value prm) t]\<rparr>))"
    by blast
  have c1: "current_scope s1 = Some p" using s1 Cons.prems(2) by simp
  have l1: "length (symbol_heap s1) = Suc (length (symbol_heap s))" using s1 by simp
  have p1: "p < length (scope_heap s1)" using s1 Cons.prems(3) by simp
  have t1: "map_of (symbols (scope_heap s1 ! p)) =
              (map_of (symbols (scope_heap s ! p)))(var_node_value prm \<mapsto> length (symbol_heap s))"
    using s1 Cons.prems(3) by (simp add: scope_insert_symbols update_conv')
  let ?n = "length (symbol_heap s)"
  let ?zs = "zip (map var_node_value rest) [Suc ?n ..< Suc (?n + length rest)]"
  from Cons.IH[OF 2 c1 p1] have
    "map_of (symbols (scope_heap s' ! p)) = map_of (symbols (scope_heap s1 ! p)) ++ map_of (rev ?zs)"
    by (simp only: l1 add_Suc)
  also have "\<dots> = (map_of (symbols (scope_heap s ! p)))(var_node_value prm \<mapsto> ?n) ++ map_of (rev ?zs)"
    by (simp only: t1)
  also have "\<dots> = map_of (symbols (scope_heap s ! p)) ++ map_of (rev ((var_node_value prm, ?n) # ?zs))"
    by (rule map_add_rev_Cons)
  also have "(var_node_value prm, ?n) # ?zs =
      zip (map var_node_value (prm # rest)) [?n ..< ?n + length (prm # rest)]"
    by (simp add: upt_add_Suc del: upt_Suc)
  finally show ?case .
qed

subsection \<open>Scope handling of the scope-opening visits\<close>

text \<open>A visit of a \<open>Program\<close> or \<open>ProcedureDecl\<close> node that returns, started in a well-formed
  store, leaves \<open>current_scope\<close> as it was; the scope table created on entry (at the next
  free address, enclosed by the scope that was current) still exists as an object but
  cannot be reached from \<open>current_scope\<close> through \<open>enclosing_scope\<close> references.\<close>

lemma scope_restored:
  assumes "wf_state s" and "closes_scope n" and "visit n s = Done s'"
  shows "current_scope s' = current_scope s \<and>
         length (scope_heap s) < length (scope_heap s') \<and>
         enclosing_scope (scope_heap s' ! length (scope_heap s)) = current_scope s \<and>
         (\<forall>a. current_scope s' = Some a \<longrightarrow> \<not> reaches s' a (length (scope_heap s)))"
proof -
  from frame_visit(1)[OF assms(3)] have f: "frame s s'" .
  then have c: "current_scope s' = current_scope s" by (simp add: frame_def)
  from f have same: "\<forall>b < length (scope_heap s).
      enclosing_scope (scope_heap s' ! b) = enclosing_scope (scope_heap s ! b)"
    by (simp add: frame_def)
  have "\<not> reaches s' a (length (scope_heap s))" if "current_scope s' = Some a" for a
  proof
    assume r: "reaches s' a (length (scope_heap s))"
    from that c assms(1) have "a < length (scope_heap s)" by (simp add: wf_state_def)
    from reaches_old[OF assms(1) same r this] this show False by simp
  qed
  with c closes_scope_grows[OF assms(2,3)] show ?thesis by blast
qed

text \<open>The level of the scope table that a scope-opening visit creates (the table at the
  next free address), in the state in which the visit ends, returning or raising: the
  literal 1 for a \<open>Program\<close>, the level of the current scope plus 1 for a \<open>ProcedureDecl\<close> and
  a \<open>FunctionDecl\<close>.\<close>

lemma scope_levels:
  assumes "current_scope s = Some a"
  shows "scope_level (scope_heap SemanticAnalyzer_init ! 0) = 1 \<and>
         enclosing_scope (scope_heap SemanticAnalyzer_init ! 0) = None \<and>
         length (scope_heap s) < length (scope_heap (state_of (visit (Program block) s))) \<and>
         enclosing_scope (scope_heap (state_of (visit (Program block) s)) ! length (scope_heap s)) = Some a \<and>
         scope_level (scope_heap (state_of (visit (Program block) s)) ! length (scope_heap s)) = 1 \<and>
         length (scope_heap s) < length (scope_heap (state_of (visit (ProcedureDecl nm ps body) s))) \<and>
         enclosing_scope (scope_heap (state_of (visit (ProcedureDecl nm ps body) s)) ! length (scope_heap s)) = Some a \<and>
         scope_level (scope_heap (state_of (visit (ProcedureDecl nm ps body) s)) ! length (scope_heap s))
           = scope_level (scope_heap s ! a) + 1 \<and>
         length (scope_heap s) < length (scope_heap (state_of (visit (FunctionDecl nm ps rt body tok) s))) \<and>
         enclosing_scope (scope_heap (state_of (visit (FunctionDecl nm ps rt body tok) s)) ! length (scope_heap s)) = Some a \<and>
         scope_level (scope_heap (state_of (visit (FunctionDecl nm ps rt body tok) s)) ! length (scope_heap s))
           = scope_level (scope_heap s ! a) + 1"
  using pushed_scope_stays[OF evolves_Program, of s block]
    pushed_scope_stays[OF evolves_ProcedureDecl[OF assms], of nm ps body]
    pushed_scope_stays[OF evolves_FunctionDecl[OF assms], of nm ps rt body tok]
    assms
  by (simp add: init_state)

section \<open>The claims\<close>

text \<open>
  C8 (does not hold for the code). The claim: visiting a \<open>UnaryOp\<close> built by ast.py succeeds
  or fails exactly as visiting its operand does. \<open>visit_UnaryOp\<close> reads \<open>node.right\<close>, an
  attribute that ast.py's \<open>UnaryOp\<close> (\<open>token\<close>, \<open>op\<close>, \<open>expr\<close>) does not have: for the node
  \<open>UnaryOp(op='-', expr=Num(5))\<close> the visit raises \<open>AttributeError\<close>, while the visit of the
  operand \<open>Num(5)\<close> returns normally.
\<close>

theorem visit_UnaryOp_raises:
  "visit (UnaryOp (Token ''-'') (Num (Token ''5''))) SemanticAnalyzer_init =
     Raise (AttributeError ''right'') SemanticAnalyzer_init \<and>
   visit (Num (Token ''5'')) SemanticAnalyzer_init = Done SemanticAnalyzer_init"
  by simp

text \<open>
  C1 (does not hold for the code). The claim: an assignment to the function's own name
  inside its body sets the flag of the function's scope, and \<open>MissingReturn\<close> is raised if
  and only if no such assignment occurred. For the function \<open>f\<close> without parameters whose
  body is \<open>begin f := 1 end\<close>, analysed by a new analyzer, the visit raises
  \<open>MISSING_RETURN\<close> at the token of \<open>f\<close> although the assignment occurred, and the flag
  \<open>hasReturnStatement\<close> of the function's scope (the second scope table) is still false.
\<close>

theorem function_with_return_assignment_fails:
  "raised (visit (FunctionDecl ''f'' [] Type
             (Block [] (Compound [Assign ''f'' (Token '':='') (Num (Token ''1''))])) (Token ''f''))
           SemanticAnalyzer_init) = Some (SemanticError MISSING_RETURN (Token ''f'')) \<and>
   scope_name (scope_heap (state_of (visit (FunctionDecl ''f'' [] Type
             (Block [] (Compound [Assign ''f'' (Token '':='') (Num (Token ''1''))])) (Token ''f''))
           SemanticAnalyzer_init)) ! 1) = ''f'' \<and>
   hasReturnStatement (scope_heap (state_of (visit (FunctionDecl ''f'' [] Type
             (Block [] (Compound [Assign ''f'' (Token '':='') (Num (Token ''1''))])) (Token ''f''))
           SemanticAnalyzer_init)) ! 1) = False"
  by code_simp

text \<open>
  C9. The constructor of a scope table ignores the scope kind it is given: the field
  \<open>scopeType\<close> holds the enumeration class \<open>TokenType\<close> whatever kind is passed, which is not
  the member \<open>TokenType.FUNCTION\<close>; and every scope table that exists after a new analyzer
  has visited any node, whether the visit returned or raised, has that same \<open>scopeType\<close>,
  so the test \<open>scopeType == TokenType.FUNCTION\<close> is false for each of them.
\<close>

theorem scopeType_never_FUNCTION:
  "scopeType (fst (ScopedSymbolTable_init sh nm kind lvl encl)) = TokenType_class \<and>
   scopeType (fst (ScopedSymbolTable_init sh nm kind lvl encl)) \<noteq> TokenType_member FUNCTION \<and>
   (\<forall>sc \<in> set (scope_heap (state_of (visit n SemanticAnalyzer_init))).
      scopeType sc = TokenType_class \<and> scopeType sc \<noteq> TokenType_member FUNCTION)"
proof -
  have "\<forall>sc \<in> set (scope_heap SemanticAnalyzer_init). scopeType sc = TokenType_class"
    by (simp add: init_state)
  from evolves_scopeType[OF evolves_visit(1) this]
  have "\<forall>sc \<in> set (scope_heap (state_of (visit n SemanticAnalyzer_init))).
          scopeType sc = TokenType_class" .
  then show ?thesis by (simp add: ScopedSymbolTable_init_eq)
qed

theorem scopeType_never_FUNCTION_witness:
  "scope_heap (state_of (visit (Program (Block [] (Compound []))) SemanticAnalyzer_init)) ! 1
     \<in> set (scope_heap (state_of (visit (Program (Block [] (Compound []))) SemanticAnalyzer_init))) \<and>
   scope_name (scope_heap (state_of (visit (Program (Block [] (Compound []))) SemanticAnalyzer_init)) ! 1)
     = ''global'' \<and>
   scopeType (scope_heap (state_of (visit (Program (Block [] (Compound []))) SemanticAnalyzer_init)) ! 1)
     = TokenType_class"
proof -
  have m: "scope_heap (state_of (visit (Program (Block [] (Compound []))) SemanticAnalyzer_init)) ! 1
        \<in> set (scope_heap (state_of (visit (Program (Block [] (Compound []))) SemanticAnalyzer_init)))"
    by code_simp
  have n: "scope_name (scope_heap (state_of (visit (Program (Block [] (Compound []))) SemanticAnalyzer_init)) ! 1)
     = ''global''" by code_simp
  from scopeType_never_FUNCTION[of "[]" "''global''" PROGRAM 1 None "Program (Block [] (Compound []))"] m n
  show ?thesis by blast
qed

text \<open>
  C10. When visiting a \<open>VarDecl\<close> raises \<open>DuplicateIdentifier\<close>, no scope table has changed:
  the store of scope tables at the raise is the store before the visit (so the binding that
  was there for the name is still there), the current scope is the same, and the symbol
  objects that existed are the same; the \<open>VarSymbol\<close> that was created is in no table.
\<close>

theorem duplicate_leaves_table:
  assumes "visit (VarDecl ty nm tok) s = Raise (SemanticError DUPLICATE_ID tok') s'"
  shows "scope_heap s' = scope_heap s \<and> current_scope s' = current_scope s \<and>
         take (length (symbol_heap s)) (symbol_heap s') = symbol_heap s"
  using assms
  by (auto simp: visit_VarDecl_def new_symbol_def split: option.splits prod.splits dest!: lookup_same)

theorem duplicate_leaves_table_witness:
  "visit (VarDecl ''REAL'' ''x'' (Token ''x2''))
     (state_of (visit (VarDecl ''INTEGER'' ''x'' (Token ''x1'')) SemanticAnalyzer_init)) =
   Raise (SemanticError DUPLICATE_ID (Token ''x2''))
     (state_of (visit (VarDecl ''REAL'' ''x'' (Token ''x2''))
        (state_of (visit (VarDecl ''INTEGER'' ''x'' (Token ''x1'')) SemanticAnalyzer_init)))) \<and>
   scope_heap (state_of (visit (VarDecl ''REAL'' ''x'' (Token ''x2''))
        (state_of (visit (VarDecl ''INTEGER'' ''x'' (Token ''x1'')) SemanticAnalyzer_init)))) =
   scope_heap (state_of (visit (VarDecl ''INTEGER'' ''x'' (Token ''x1'')) SemanticAnalyzer_init))"
proof -
  have h: "visit (VarDecl ''REAL'' ''x'' (Token ''x2''))
     (state_of (visit (VarDecl ''INTEGER'' ''x'' (Token ''x1'')) SemanticAnalyzer_init)) =
   Raise (SemanticError DUPLICATE_ID (Token ''x2''))
     (state_of (visit (VarDecl ''REAL'' ''x'' (Token ''x2''))
        (state_of (visit (VarDecl ''INTEGER'' ''x'' (Token ''x1'')) SemanticAnalyzer_init))))"
    by code_simp
  from duplicate_leaves_table[OF h] h show ?thesis by blast
qed

text \<open>
  C4. For a scope table \<open>a\<close> of a well-formed store and every name: \<open>lookup\<close> with
  \<open>current_scope_only\<close> true returns what the table itself binds to the name, or none; with
  \<open>current_scope_only\<close> false it returns the local binding if there is one, otherwise the
  result of the same chained lookup in the enclosing scope if there is one, and none when
  there is no enclosing scope; in both cases \<open>lookup\<close> returns (it does not raise and the
  recursion ends) and the state it hands back is the state it was given.
\<close>

theorem lookup_spec:
  assumes "wf_state s" and "a < length (scope_heap s)"
  shows "lookup s a nm True = Some (map_of (symbols (scope_heap s ! a)) nm, s) \<and>
         lookup s a nm False =
           (case map_of (symbols (scope_heap s ! a)) nm of
              Some v \<Rightarrow> Some (Some v, s)
            | None \<Rightarrow> (case enclosing_scope (scope_heap s ! a) of
                         None \<Rightarrow> Some (None, s)
                       | Some e \<Rightarrow> lookup s e nm False)) \<and>
         (\<exists>r. lookup s a nm b = Some (r, s))"
proof -
  have "lookup s a nm False =
           (case map_of (symbols (scope_heap s ! a)) nm of
              Some v \<Rightarrow> Some (Some v, s)
            | None \<Rightarrow> (case enclosing_scope (scope_heap s ! a) of
                         None \<Rightarrow> Some (None, s)
                       | Some e \<Rightarrow> lookup s e nm False))"
    by (subst lookup.simps) (simp split: option.splits)
  with lookup_local lookup_returns[OF assms] show ?thesis by blast
qed

theorem lookup_spec_witness:
  "wf_state (push_scope ''p'' PROCEDURE 2
     (state_of (visit (VarDecl ''INTEGER'' ''x'' (Token ''x'')) SemanticAnalyzer_init))) \<and>
   1 < length (scope_heap (push_scope ''p'' PROCEDURE 2
     (state_of (visit (VarDecl ''INTEGER'' ''x'' (Token ''x'')) SemanticAnalyzer_init)))) \<and>
   (\<exists>r. lookup (push_scope ''p'' PROCEDURE 2
           (state_of (visit (VarDecl ''INTEGER'' ''x'' (Token ''x'')) SemanticAnalyzer_init)))
         1 ''x'' False =
       Some (r, push_scope ''p'' PROCEDURE 2
           (state_of (visit (VarDecl ''INTEGER'' ''x'' (Token ''x'')) SemanticAnalyzer_init))))"
proof -
  have h1: "wf_state (push_scope ''p'' PROCEDURE 2
     (state_of (visit (VarDecl ''INTEGER'' ''x'' (Token ''x'')) SemanticAnalyzer_init)))"
    by code_simp
  have h2: "1 < length (scope_heap (push_scope ''p'' PROCEDURE 2
     (state_of (visit (VarDecl ''INTEGER'' ''x'' (Token ''x'')) SemanticAnalyzer_init))))"
    by code_simp
  from lookup_spec[OF h1 h2, of "''x''" False] h1 h2 show ?thesis by blast
qed


text \<open>
  C7 (does not hold for the code). The claim: scope levels grow by exactly 1 per nesting
  step, and the scope that the visit of a \<open>Program\<close> pushes has the level of the current
  (placeholder) scope plus 1. For a new analyzer visiting a program that declares one
  procedure \<open>p\<close>: the placeholder scope \<open>initial\<close> has level 1, and the scope \<open>global\<close>, whose
  enclosing scope is \<open>initial\<close>, has level 1 as well, not 2; the scope of \<open>p\<close>, whose enclosing
  scope is \<open>global\<close>, has the level of \<open>global\<close> plus 1, as the claim says of procedure
  scopes.
\<close>

theorem program_scope_level_not_incremented:
  "scope_name (scope_heap (state_of (visit (Program (Block [ProcedureDecl ''p'' [] (Block [] (Compound []))] (Compound []))) SemanticAnalyzer_init)) ! 0) = ''initial'' \<and>
   enclosing_scope (scope_heap (state_of (visit (Program (Block [ProcedureDecl ''p'' [] (Block [] (Compound []))] (Compound []))) SemanticAnalyzer_init)) ! 0) = None \<and>
   scope_level (scope_heap (state_of (visit (Program (Block [ProcedureDecl ''p'' [] (Block [] (Compound []))] (Compound []))) SemanticAnalyzer_init)) ! 0) = 1 \<and>
   scope_name (scope_heap (state_of (visit (Program (Block [ProcedureDecl ''p'' [] (Block [] (Compound []))] (Compound []))) SemanticAnalyzer_init)) ! 1) = ''global'' \<and>
   enclosing_scope (scope_heap (state_of (visit (Program (Block [ProcedureDecl ''p'' [] (Block [] (Compound []))] (Compound []))) SemanticAnalyzer_init)) ! 1) = Some 0 \<and>
   scope_level (scope_heap (state_of (visit (Program (Block [ProcedureDecl ''p'' [] (Block [] (Compound []))] (Compound []))) SemanticAnalyzer_init)) ! 1) = 1 \<and>
   scope_level (scope_heap (state_of (visit (Program (Block [ProcedureDecl ''p'' [] (Block [] (Compound []))] (Compound []))) SemanticAnalyzer_init)) ! 1)
     \<noteq> scope_level (scope_heap (state_of (visit (Program (Block [ProcedureDecl ''p'' [] (Block [] (Compound []))] (Compound []))) SemanticAnalyzer_init)) ! 0) + 1 \<and>
   scope_name (scope_heap (state_of (visit (Program (Block [ProcedureDecl ''p'' [] (Block [] (Compound []))] (Compound []))) SemanticAnalyzer_init)) ! 2) = ''p'' \<and>
   enclosing_scope (scope_heap (state_of (visit (Program (Block [ProcedureDecl ''p'' [] (Block [] (Compound []))] (Compound []))) SemanticAnalyzer_init)) ! 2) = Some 1 \<and>
   scope_level (scope_heap (state_of (visit (Program (Block [ProcedureDecl ''p'' [] (Block [] (Compound []))] (Compound []))) SemanticAnalyzer_init)) ! 2)
     = scope_level (scope_heap (state_of (visit (Program (Block [ProcedureDecl ''p'' [] (Block [] (Compound []))] (Compound []))) SemanticAnalyzer_init)) ! 1) + 1"
  by code_simp

text \<open>
  C3. In a well-formed store with current scope \<open>a\<close>: visiting a \<open>VarDecl\<close> raises
  \<open>DuplicateIdentifier\<close> at the variable's token if and only if the current scope's own
  table binds the name (\<open>lookup\<close> with \<open>current_scope_only\<close> true finds a symbol). If it does
  not, whether or not an enclosing scope binds the name, the visit returns: a new
  \<open>VarSymbol\<close> with the declared name and the symbol that \<open>lookup\<close> found for the type name
  is in the store, and the current scope binds the name to it, so that both kinds of
  \<open>lookup\<close> from the current scope now find the new symbol.
\<close>

theorem VarDecl_duplicate_iff:
  assumes "wf_state s" and "current_scope s = Some a"
  shows "((\<exists>s'. visit (VarDecl ty nm tok) s = Raise (SemanticError DUPLICATE_ID tok) s') \<longleftrightarrow>
            (\<exists>v. lookup s a nm True = Some (Some v, s))) \<and>
         ((\<exists>s' t. visit (VarDecl ty nm tok) s = Done s' \<and>
                  lookup s a ty False = Some (t, s) \<and>
                  symbol_heap s' ! length (symbol_heap s) = VarSymbol nm t \<and>
                  lookup s' a nm True = Some (Some (length (symbol_heap s)), s') \<and>
                  lookup s' a nm False = Some (Some (length (symbol_heap s)), s')) \<longleftrightarrow>
            lookup s a nm True = Some (None, s))"
proof -
  from visit_VarDecl_eq[OF assms, of ty nm tok] obtain t where
    t: "lookup s a ty False = Some (t, s)" and
    v: "visit_VarDecl ty nm tok s =
             (case map_of (symbols (scope_heap s ! a)) nm of
                Some v \<Rightarrow> Raise (SemanticError DUPLICATE_ID tok)
                            (s\<lparr>symbol_heap := symbol_heap s @ [VarSymbol nm t]\<rparr>)
              | None \<Rightarrow> Done (scope_insert a (length (symbol_heap s))
                            (s\<lparr>symbol_heap := symbol_heap s @ [VarSymbol nm t]\<rparr>)))"
    by blast
  note al = wf_state_current[OF assms]
  show ?thesis
  proof (cases "map_of (symbols (scope_heap s ! a)) nm")
    case None
    let ?s' = "scope_insert a (length (symbol_heap s))
                 (s\<lparr>symbol_heap := symbol_heap s @ [VarSymbol nm t]\<rparr>)"
    have b: "map_of (symbols (scope_heap ?s' ! a)) nm = Some (length (symbol_heap s))"
      using al by (simp add: scope_insert_symbols update_conv')
    have "symbol_heap ?s' ! length (symbol_heap s) = VarSymbol nm t" by simp
    with None v t lookup_bound[OF b] b show ?thesis by (auto simp: lookup_local)
  next
    case (Some w)
    with v t show ?thesis by (auto simp: lookup_local)
  qed
qed

theorem VarDecl_duplicate_iff_witness:
  "wf_state (push_scope ''p'' PROCEDURE 2 (state_of (visit (VarDecl ''INTEGER'' ''x'' (Token ''x'')) SemanticAnalyzer_init))) \<and> current_scope (push_scope ''p'' PROCEDURE 2 (state_of (visit (VarDecl ''INTEGER'' ''x'' (Token ''x'')) SemanticAnalyzer_init))) = Some 1 \<and>
   lookup (push_scope ''p'' PROCEDURE 2 (state_of (visit (VarDecl ''INTEGER'' ''x'' (Token ''x'')) SemanticAnalyzer_init))) 1 ''x'' False = Some (Some 2, (push_scope ''p'' PROCEDURE 2 (state_of (visit (VarDecl ''INTEGER'' ''x'' (Token ''x'')) SemanticAnalyzer_init)))) \<and>
   lookup (push_scope ''p'' PROCEDURE 2 (state_of (visit (VarDecl ''INTEGER'' ''x'' (Token ''x'')) SemanticAnalyzer_init))) 1 ''x'' True = Some (None, (push_scope ''p'' PROCEDURE 2 (state_of (visit (VarDecl ''INTEGER'' ''x'' (Token ''x'')) SemanticAnalyzer_init)))) \<and>
   (\<exists>s' t. visit (VarDecl ''REAL'' ''x'' (Token ''x'')) (push_scope ''p'' PROCEDURE 2 (state_of (visit (VarDecl ''INTEGER'' ''x'' (Token ''x'')) SemanticAnalyzer_init))) = Done s' \<and>
           lookup (push_scope ''p'' PROCEDURE 2 (state_of (visit (VarDecl ''INTEGER'' ''x'' (Token ''x'')) SemanticAnalyzer_init))) 1 ''REAL'' False = Some (t, (push_scope ''p'' PROCEDURE 2 (state_of (visit (VarDecl ''INTEGER'' ''x'' (Token ''x'')) SemanticAnalyzer_init)))) \<and>
           symbol_heap s' ! length (symbol_heap (push_scope ''p'' PROCEDURE 2 (state_of (visit (VarDecl ''INTEGER'' ''x'' (Token ''x'')) SemanticAnalyzer_init)))) = VarSymbol ''x'' t \<and>
           lookup s' 1 ''x'' True = Some (Some (length (symbol_heap (push_scope ''p'' PROCEDURE 2 (state_of (visit (VarDecl ''INTEGER'' ''x'' (Token ''x'')) SemanticAnalyzer_init))))), s') \<and>
           lookup s' 1 ''x'' False = Some (Some (length (symbol_heap (push_scope ''p'' PROCEDURE 2 (state_of (visit (VarDecl ''INTEGER'' ''x'' (Token ''x'')) SemanticAnalyzer_init))))), s'))"
proof -
  have h1: "wf_state (push_scope ''p'' PROCEDURE 2 (state_of (visit (VarDecl ''INTEGER'' ''x'' (Token ''x'')) SemanticAnalyzer_init)))" by code_simp
  have h2: "current_scope (push_scope ''p'' PROCEDURE 2 (state_of (visit (VarDecl ''INTEGER'' ''x'' (Token ''x'')) SemanticAnalyzer_init))) = Some 1" by code_simp
  have h3: "lookup (push_scope ''p'' PROCEDURE 2 (state_of (visit (VarDecl ''INTEGER'' ''x'' (Token ''x'')) SemanticAnalyzer_init))) 1 ''x'' False = Some (Some 2, (push_scope ''p'' PROCEDURE 2 (state_of (visit (VarDecl ''INTEGER'' ''x'' (Token ''x'')) SemanticAnalyzer_init))))" by code_simp
  have h4: "lookup (push_scope ''p'' PROCEDURE 2 (state_of (visit (VarDecl ''INTEGER'' ''x'' (Token ''x'')) SemanticAnalyzer_init))) 1 ''x'' True = Some (None, (push_scope ''p'' PROCEDURE 2 (state_of (visit (VarDecl ''INTEGER'' ''x'' (Token ''x'')) SemanticAnalyzer_init))))" by code_simp
  from VarDecl_duplicate_iff[OF h1 h2, of "''REAL''" "''x''" "Token ''x''"] h1 h2 h3 h4
  show ?thesis by blast
qed

text \<open>
  C2. A scope table, whatever name, kind, level and enclosing scope it is constructed
  with, holds exactly two bindings right after construction, \<open>INTEGER\<close> and \<open>REAL\<close>, and
  they refer to two \<open>BuiltinTypeSymbol\<close> objects that the constructor has just created
  (the two objects appended to the store of symbols, which no older table can refer to).
  So \<open>lookup\<close> of \<open>INTEGER\<close> or \<open>REAL\<close> in a scope that was just opened finds these two
  objects, and in every scope table that exists after a new analyzer has visited any node
  \<open>lookup\<close> of \<open>INTEGER\<close> and of \<open>REAL\<close> finds a symbol.
\<close>

theorem builtins_in_every_scope:
  "symbols (fst (ScopedSymbolTable_init sh nm kind lvl encl)) =
     [(''INTEGER'', length sh), (''REAL'', Suc (length sh))] \<and>
   snd (ScopedSymbolTable_init sh nm kind lvl encl) =
     sh @ [BuiltinTypeSymbol ''INTEGER'', BuiltinTypeSymbol ''REAL''] \<and>
   lookup (push_scope nm kind lvl s) (length (scope_heap s)) ''INTEGER'' b =
     Some (Some (length (symbol_heap s)), push_scope nm kind lvl s) \<and>
   lookup (push_scope nm kind lvl s) (length (scope_heap s)) ''REAL'' b =
     Some (Some (Suc (length (symbol_heap s))), push_scope nm kind lvl s) \<and>
   (\<forall>a < length (scope_heap (state_of (visit n SemanticAnalyzer_init))).
      (\<exists>i. lookup (state_of (visit n SemanticAnalyzer_init)) a ''INTEGER'' b =
              Some (Some i, state_of (visit n SemanticAnalyzer_init))) \<and>
      (\<exists>r. lookup (state_of (visit n SemanticAnalyzer_init)) a ''REAL'' b =
              Some (Some r, state_of (visit n SemanticAnalyzer_init))))"
proof -
  let ?S = "state_of (visit n SemanticAnalyzer_init)"
  have "\<forall>sc \<in> set (scope_heap SemanticAnalyzer_init).
          map_of (symbols sc) ''INTEGER'' \<noteq> None \<and> map_of (symbols sc) ''REAL'' \<noteq> None"
    by (simp add: init_state)
  from evolves_builtins[OF evolves_visit(1) this]
  have inv: "\<forall>sc \<in> set (scope_heap ?S).
          map_of (symbols sc) ''INTEGER'' \<noteq> None \<and> map_of (symbols sc) ''REAL'' \<noteq> None" .
  have every: "(\<exists>i. lookup ?S a ''INTEGER'' b = Some (Some i, ?S)) \<and>
               (\<exists>r. lookup ?S a ''REAL'' b = Some (Some r, ?S))"
    if "a < length (scope_heap ?S)" for a
  proof -
    from that have "scope_heap ?S ! a \<in> set (scope_heap ?S)" by simp
    with inv obtain i r where "map_of (symbols (scope_heap ?S ! a)) ''INTEGER'' = Some i"
      "map_of (symbols (scope_heap ?S ! a)) ''REAL'' = Some r" by blast
    then show ?thesis using lookup_bound by blast
  qed
  have new: "lookup (push_scope nm kind lvl s) (length (scope_heap s)) ''INTEGER'' b =
       Some (Some (length (symbol_heap s)), push_scope nm kind lvl s)"
    "lookup (push_scope nm kind lvl s) (length (scope_heap s)) ''REAL'' b =
       Some (Some (Suc (length (symbol_heap s))), push_scope nm kind lvl s)"
    by (rule lookup_bound, simp add: push_scope_eq)+
  show ?thesis using every new by (simp add: ScopedSymbolTable_init_eq)
qed

theorem builtins_in_every_scope_witness:
  "1 < length (scope_heap (state_of (visit (Program (Block [] (Compound []))) SemanticAnalyzer_init))) \<and>
   (\<exists>i. lookup (state_of (visit (Program (Block [] (Compound []))) SemanticAnalyzer_init)) 1
           ''INTEGER'' False =
         Some (Some i, state_of (visit (Program (Block [] (Compound []))) SemanticAnalyzer_init)))"
proof -
  have h: "1 < length (scope_heap (state_of (visit (Program (Block [] (Compound []))) SemanticAnalyzer_init)))"
    by code_simp
  from builtins_in_every_scope[where sh = "[]" and nm = "''global''" and kind = PROGRAM
         and lvl = 1 and encl = None and s = SemanticAnalyzer_init and b = False
         and n = "Program (Block [] (Compound []))"] h
  show ?thesis by blast
qed

text \<open>
  C5. Visiting a \<open>ProcedureDecl\<close> in a well-formed store with current scope \<open>a\<close>: the part of
  the visit before the body returns, in a state \<open>s1\<close> in which
  \<^item> the enclosing scope \<open>a\<close> binds the procedure's name to the new \<open>ProcedureSymbol\<close> (created
    before the new scope and its builtin symbols) and is otherwise as it was;
  \<^item> the current scope is the new scope \<open>p\<close>, whose enclosing scope is \<open>a\<close>, so that a chained
    \<open>lookup\<close> of the procedure's name from the scope of the body finds a symbol;
  \<^item> the parameter list of the \<open>ProcedureSymbol\<close> holds one new symbol per formal parameter,
    in declaration order, and the symbol for the parameter at position \<open>i\<close> is a \<open>VarSymbol\<close>
    with that parameter's name and, as its type, what \<open>lookup\<close> of its type name gave from the
    new scope in the state reached after the parameters before it;
  \<^item> the new scope binds \<open>INTEGER\<close>, \<open>REAL\<close> and the parameters' names (a later parameter of
    the same name overriding an earlier one), and nothing else.

  When the whole visit returns, the current scope is \<open>a\<close> again, the \<open>ProcedureSymbol\<close> still has
  that parameter list, and the table of \<open>a\<close> differs from what it was before the visit in the
  binding of the procedure's name only: a parameter's name other than the procedure's name
  is bound in \<open>a\<close> after the visit exactly if it was bound there before.
\<close>

theorem ProcedureDecl_spec:
  assumes wf: "wf_state s" and cur: "current_scope s = Some a"
    and q: "q = length (symbol_heap s)" and p: "p = length (scope_heap s)"
  shows "\<exists>s1. ProcedureDecl_enter nm ps s = Done s1 \<and>
           symbols (scope_heap s1 ! a) = AList.update nm q (symbols (scope_heap s ! a)) \<and>
           current_scope s1 = Some p \<and>
           enclosing_scope (scope_heap s1 ! p) = Some a \<and>
           (\<exists>r. lookup s1 p nm False = Some (Some r, s1)) \<and>
           symbol_heap s1 ! q = ProcedureSymbol nm [q + 3 ..< q + 3 + length ps] \<and>
           (\<forall>i < length ps. \<exists>t.
              lookup (state_of (ProcedureDecl_enter nm (take i ps) s)) p
                     (type_node_value (ps ! i)) False =
                Some (t, state_of (ProcedureDecl_enter nm (take i ps) s)) \<and>
              symbol_heap s1 ! (q + 3 + i) = VarSymbol (var_node_value (ps ! i)) t) \<and>
           map_of (symbols (scope_heap s1 ! p)) =
             map_of [(''INTEGER'', q + 1), (''REAL'', q + 2)] ++
             map_of (rev (zip (map var_node_value ps) [q + 3 ..< q + 3 + length ps])) \<and>
           (\<forall>s'. visit (ProcedureDecl nm ps body) s = Done s' \<longrightarrow>
              current_scope s' = Some a \<and>
              symbols (scope_heap s' ! a) = AList.update nm q (symbols (scope_heap s ! a)) \<and>
              symbol_heap s' ! q = ProcedureSymbol nm [q + 3 ..< q + 3 + length ps] \<and>
              (\<forall>x. x \<noteq> nm \<longrightarrow>
                 map_of (symbols (scope_heap s' ! a)) x = map_of (symbols (scope_heap s ! a)) x))"
proof -
  let ?s3 = "push_scope nm PROCEDURE (scope_level (scope_heap s ! a) + 1)
               (scope_insert a (length (symbol_heap s))
                  (s\<lparr>symbol_heap := symbol_heap s @ [ProcedureSymbol nm []]\<rparr>))"
  note al = wf_state_current[OF wf cur]
  have enter: "ProcedureDecl_enter nm ps' s = ProcedureDecl_params q ps' ?s3" for ps'
    unfolding q by (rule ProcedureDecl_enter_push[OF cur])
  have wf3: "wf_state ?s3" by (rule wf_state_push[OF wf cur])
  have c3: "current_scope ?s3 = Some p" by (simp add: push_scope_eq p)
  have l3: "length (scope_heap ?s3) = Suc p" by (simp add: push_scope_eq p)
  have y3: "length (symbol_heap ?s3) = q + 3" by (simp add: push_scope_eq q)
  have q3: "symbol_heap ?s3 ! q = ProcedureSymbol nm []"
    by (simp add: push_scope_eq q nth_append)
  have a3: "symbols (scope_heap ?s3 ! a) = AList.update nm q (symbols (scope_heap s ! a))"
    using al by (simp add: push_scope_eq nth_append scope_insert_symbols q p)
  have p3: "symbols (scope_heap ?s3 ! p) = [(''INTEGER'', q + 1), (''REAL'', q + 2)]"
    by (simp add: push_scope_eq p q nth_append)
  have e3: "enclosing_scope (scope_heap ?s3 ! p) = Some a"
    using cur by (simp add: push_scope_eq p nth_append)
  from ProcedureDecl_params_returns[OF wf3 c3] obtain s1
    where d: "ProcedureDecl_params q ps ?s3 = Done s1" by blast
  note eff = ProcedureDecl_params_effect[OF d]
  from eff c3 have c1: "current_scope s1 = Some p" by simp
  from eff l3 have l1: "length (scope_heap s1) = Suc p" by simp
  from eff y3 have y1: "length (symbol_heap s1) = q + 3 + length ps" by simp
  from al p have ap: "a \<noteq> p" by simp
  from eff c3 ap have sa: "scope_heap s1 ! a = scope_heap ?s3 ! a" by auto
  with a3 have a1: "symbols (scope_heap s1 ! a) = AList.update nm q (symbols (scope_heap s ! a))"
    by simp
  from eff e3 have e1: "enclosing_scope (scope_heap s1 ! p) = Some a" by simp
  have q1: "symbol_heap s1 ! q = ProcedureSymbol nm [q + 3 ..< q + 3 + length ps]"
    using params_proc_symbol[OF d c3 _ q3] y3 by simp
  have v1: "\<exists>t. lookup (state_of (ProcedureDecl_enter nm (take i ps) s)) p
                     (type_node_value (ps ! i)) False =
                Some (t, state_of (ProcedureDecl_enter nm (take i ps) s)) \<and>
              symbol_heap s1 ! (q + 3 + i) = VarSymbol (var_node_value (ps ! i)) t"
    if "i < length ps" for i
    using params_var_symbol[OF d c3 _ that] y3 by (auto simp: enter)
  have t1: "map_of (symbols (scope_heap s1 ! p)) =
             map_of [(''INTEGER'', q + 1), (''REAL'', q + 2)] ++
             map_of (rev (zip (map var_node_value ps) [q + 3 ..< q + 3 + length ps]))"
    using params_table[OF d c3] l3 p3 y3 by simp
  have na: "map_of (symbols (scope_heap s1 ! a)) nm = Some q"
    by (simp add: a1 update_conv')
  have r1: "\<exists>r. lookup s1 p nm False = Some (Some r, s1)"
  proof (cases "map_of (symbols (scope_heap s1 ! p)) nm")
    case None
    have "lookup s1 p nm False = lookup s1 a nm False"
      by (subst lookup.simps) (simp add: None e1)
    with lookup_bound[OF na] show ?thesis by simp
  next
    case (Some v)
    from lookup_bound[OF this] show ?thesis by blast
  qed
  have fin: "current_scope s' = Some a \<and>
              symbols (scope_heap s' ! a) = AList.update nm q (symbols (scope_heap s ! a)) \<and>
              symbol_heap s' ! q = ProcedureSymbol nm [q + 3 ..< q + 3 + length ps] \<and>
              (\<forall>x. x \<noteq> nm \<longrightarrow>
                 map_of (symbols (scope_heap s' ! a)) x = map_of (symbols (scope_heap s ! a)) x)"
    if v: "visit (ProcedureDecl nm ps body) s = Done s'" for s'
  proof -
    from v d obtain s2 where b: "visit body s1 = Done s2" and pp: "pop_scope s2 = Done s'"
      by (auto simp: enter split: outcome.splits)
    from frame_visit(1)[OF v] cur have c': "current_scope s' = Some a" by (simp add: frame_def)
    from pp have hp: "scope_heap s' = scope_heap s2" "symbol_heap s' = symbol_heap s2"
      by (auto simp: pop_scope_def split: option.splits)
    from frame_visit(1)[OF b] c1 l1 al p ap have "scope_heap s2 ! a = scope_heap s1 ! a"
      by (auto simp: frame_def)
    with hp a1 have a': "symbols (scope_heap s' ! a) = AList.update nm q (symbols (scope_heap s ! a))"
      by simp
    from frame_visit(1)[OF b] y1 have "symbol_heap s2 ! q = symbol_heap s1 ! q"
      by (auto simp: frame_def)
    with hp q1 have q': "symbol_heap s' ! q = ProcedureSymbol nm [q + 3 ..< q + 3 + length ps]"
      by simp
    from c' a' q' show ?thesis by (simp add: update_conv')
  qed
  from d a1 c1 e1 r1 q1 v1 t1 fin show ?thesis unfolding enter by blast
qed

theorem ProcedureDecl_spec_witness:
  "wf_state SemanticAnalyzer_init \<and> current_scope SemanticAnalyzer_init = Some 0 \<and>
   2 = length (symbol_heap SemanticAnalyzer_init) \<and>
   1 = length (scope_heap SemanticAnalyzer_init) \<and>
   (\<exists>s1. ProcedureDecl_enter ''p'' [Param ''INTEGER'' ''a'', Param ''REAL'' ''b''] SemanticAnalyzer_init = Done s1 \<and>
          current_scope s1 = Some 1 \<and>
          enclosing_scope (scope_heap s1 ! 1) = Some 0 \<and>
          symbol_heap s1 ! 2 = ProcedureSymbol ''p'' [2 + 3 ..< 2 + 3 + length [Param ''INTEGER'' ''a'', Param ''REAL'' ''b'']])"
proof -
  have h1: "wf_state SemanticAnalyzer_init" by code_simp
  have h2: "current_scope SemanticAnalyzer_init = Some 0" by (simp add: init_state)
  have h3: "2 = length (symbol_heap SemanticAnalyzer_init)" by (simp add: init_state)
  have h4: "1 = length (scope_heap SemanticAnalyzer_init)" by (simp add: init_state)
  from ProcedureDecl_spec[OF h1 h2 h3 h4, where nm = "''p''" and ps = "[Param ''INTEGER'' ''a'', Param ''REAL'' ''b'']"] h1 h2 h3 h4
  show ?thesis by blast
qed

end
